theory Spec2Isabelle
  imports Complex_Main "HOL-Library.Word"
begin

section \<open>Strings of the guess-scoring engine\<close>

text \<open>
  The scoring functions of \<^verbatim>\<open>src/pages/Game.tsx\<close> work on JavaScript strings, which are
  sequences of 16-bit code units; \<^verbatim>\<open>length\<close>, indexing and the regular expressions of
  \<^verbatim>\<open>normalizeTitle\<close> (none has the \<^verbatim>\<open>u\<close> flag) all count code units.
\<close>

type_synonym codeunit = "16 word"
type_synonym jsstring = "codeunit list"

definition fromAscii :: "string \<Rightarrow> jsstring" where
  "fromAscii s = map of_char s"

text \<open>
  The class \<^verbatim>\<open>\s\<close> of a regular expression and the characters \<^verbatim>\<open>trim\<close> strips are the same
  set in ECMAScript: WhiteSpace (TAB, VT, FF, SP, NBSP, ZWNBSP and the category Zs) and
  LineTerminator (LF, CR, LS, PS).
\<close>

definition isWhiteSpace :: "codeunit \<Rightarrow> bool" where
  "isWhiteSpace c =
     (c = 0x09 \<or> c = 0x0A \<or> c = 0x0B \<or> c = 0x0C \<or> c = 0x0D \<or> c = 0x20 \<or> c = 0xA0
      \<or> c = 0x1680 \<or> (0x2000 \<le> c \<and> c \<le> 0x200A) \<or> c = 0x2028 \<or> c = 0x2029
      \<or> c = 0x202F \<or> c = 0x205F \<or> c = 0x3000 \<or> c = 0xFEFF)"

text \<open>The class \<^verbatim>\<open>a-z0-9\<close>.\<close>

definition isLowerAlnum :: "codeunit \<Rightarrow> bool" where
  "isLowerAlnum c = ((0x61 \<le> c \<and> c \<le> 0x7A) \<or> (0x30 \<le> c \<and> c \<le> 0x39))"

definition isAscii :: "codeunit \<Rightarrow> bool" where
  "isAscii c = (c < 0x80)"

definition lowerAscii :: "codeunit \<Rightarrow> codeunit" where
  "lowerAscii c = (if 0x41 \<le> c \<and> c \<le> 0x5A then c + 0x20 else c)"

text \<open>
  \<^verbatim>\<open>String.prototype.toLowerCase\<close>. On a string of ASCII code units it maps \<^verbatim>\<open>A-Z\<close> to
  \<^verbatim>\<open>a-z\<close> and leaves every other code unit alone. On any other string the result is read
  from the Unicode case-mapping tables, which are not part of the repository: that
  mapping is the parameter \<open>lowerNonAscii\<close>, and every theorem below holds for each
  choice of it.
\<close>

definition toLowerCase :: "(jsstring \<Rightarrow> jsstring) \<Rightarrow> jsstring \<Rightarrow> jsstring" where
  "toLowerCase lowerNonAscii s =
     (if list_all isAscii s then map lowerAscii s else lowerNonAscii s)"

text \<open>
  \<^verbatim>\<open>.replace(/\([^)]*\)|\[[^\]]*\]/g, "")\<close>. The scan runs from the left. At an opening
  parenthesis the first alternative matches when a closing parenthesis follows somewhere,
  and then the match ends at the first one (\<^verbatim>\<open>[^)]*\<close> cannot cross it); the second
  alternative does the same for square brackets. The match is deleted and the scan goes
  on behind it. Where neither alternative matches the code unit is kept.
\<close>

function stripBrackets :: "jsstring \<Rightarrow> jsstring" where
  "stripBrackets [] = []"
| "stripBrackets (c # cs) =
     (if c = 0x28 \<and> 0x29 \<in> set cs
        then stripBrackets (tl (dropWhile (\<lambda>x. x \<noteq> 0x29) cs))
      else if c = 0x5B \<and> 0x5D \<in> set cs
        then stripBrackets (tl (dropWhile (\<lambda>x. x \<noteq> 0x5D) cs))
      else c # stripBrackets cs)"
  by pat_completeness auto
termination
proof (relation "measure length")
  fix c :: codeunit and cs :: jsstring
  have "length (tl (dropWhile (\<lambda>x. x \<noteq> 0x29) cs)) \<le> length cs"
    using length_dropWhile_le [of "\<lambda>x. x \<noteq> 0x29" cs] by simp
  then show "c = 0x28 \<and> 0x29 \<in> set cs \<Longrightarrow>
      (tl (dropWhile (\<lambda>x. x \<noteq> 0x29) cs), c # cs) \<in> measure length"
    by simp
  have "length (tl (dropWhile (\<lambda>x. x \<noteq> 0x5D) cs)) \<le> length cs"
    using length_dropWhile_le [of "\<lambda>x. x \<noteq> 0x5D" cs] by simp
  then show "\<not> (c = 0x28 \<and> 0x29 \<in> set cs) \<Longrightarrow> c = 0x5B \<and> 0x5D \<in> set cs \<Longrightarrow>
      (tl (dropWhile (\<lambda>x. x \<noteq> 0x5D) cs), c # cs) \<in> measure length"
    by simp
qed simp_all

declare stripBrackets.simps(2) [simp del]

text \<open>\<^verbatim>\<open>.replace(/[^a-z0-9\s]/g, "")\<close>\<close>

definition removeNonAlnum :: "jsstring \<Rightarrow> jsstring" where
  "removeNonAlnum s = filter (\<lambda>c. isLowerAlnum c \<or> isWhiteSpace c) s"

text \<open>\<^verbatim>\<open>.replace(/\s+/g, " ")\<close>: every maximal run of white space becomes one space.\<close>

function collapseWhitespace :: "jsstring \<Rightarrow> jsstring" where
  "collapseWhitespace [] = []"
| "collapseWhitespace (c # cs) =
     (if isWhiteSpace c then 0x20 # collapseWhitespace (dropWhile isWhiteSpace cs)
      else c # collapseWhitespace cs)"
  by pat_completeness auto
termination
  by (relation "measure length") (simp_all add: less_Suc_eq_le length_dropWhile_le)

declare collapseWhitespace.simps(2) [simp del]

text \<open>\<^verbatim>\<open>.trim()\<close>\<close>

definition trim :: "jsstring \<Rightarrow> jsstring" where
  "trim s = rev (dropWhile isWhiteSpace (rev (dropWhile isWhiteSpace s)))"

definition normalizeTitle :: "(jsstring \<Rightarrow> jsstring) \<Rightarrow> jsstring \<Rightarrow> jsstring" where
  "normalizeTitle lowerNonAscii input =
     trim (collapseWhitespace (removeNonAlnum (stripBrackets (toLowerCase lowerNonAscii input))))"

text \<open>
  Steps 2 to 5 of the normalizer on their own: what \<^verbatim>\<open>normalizeTitle\<close> does to the string
  that \<^verbatim>\<open>toLowerCase\<close> hands on. Used to state the removal of groups for every input.
\<close>

definition normalizeLowered :: "jsstring \<Rightarrow> jsstring" where
  "normalizeLowered t = trim (collapseWhitespace (removeNonAlnum (stripBrackets t)))"

text \<open>
  ASCII punctuation and brackets: the ranges \<^verbatim>\<open>!\<close> to \<^verbatim>\<open>/\<close>, \<^verbatim>\<open>:\<close> to \<^verbatim>\<open>@\<close>, \<^verbatim>\<open>[\<close> to
  the backquote, and \<^verbatim>\<open>{\<close> to \<^verbatim>\<open>~\<close>. Used to state what an input of punctuation only
  normalizes to.
\<close>

definition isAsciiPunct :: "codeunit \<Rightarrow> bool" where
  "isAsciiPunct c = ((0x21 \<le> c \<and> c \<le> 0x2F) \<or> (0x3A \<le> c \<and> c \<le> 0x40)
     \<or> (0x5B \<le> c \<and> c \<le> 0x60) \<or> (0x7B \<le> c \<and> c \<le> 0x7E))"

text \<open>
  No two neighbouring code units are both spaces.
\<close>

fun noDoubleSpace :: "jsstring \<Rightarrow> bool" where
  "noDoubleSpace (x # y # zs) = ((x \<noteq> 0x20 \<or> y \<noteq> 0x20) \<and> noDoubleSpace (y # zs))"
| "noDoubleSpace zs = True"

section \<open>Edit distance\<close>

text \<open>
  \<^verbatim>\<open>levenshteinDistance\<close> keeps one row \<^verbatim>\<open>dp\<close> of \<open>n + 1\<close> numbers. The inner loop
  over \<open>j\<close> carries the row and \<^verbatim>\<open>prev\<close>; the outer loop over \<open>i\<close> carries the row.
  The function only compares code units for equality, so the model is polymorphic in
  the element type.
\<close>

function innerLoop :: "'a list \<Rightarrow> 'a list \<Rightarrow> nat \<Rightarrow> nat \<Rightarrow> nat \<Rightarrow> nat list \<times> nat \<Rightarrow> nat list \<times> nat" where
  "innerLoop a b i n j (dp, prev) =
     (if j \<le> n then
        let temp = dp ! j;
            dp' = (if a ! (i - 1) = b ! (j - 1) then dp[j := prev]
                   else dp[j := min (prev + 1) (min (dp ! j + 1) (dp ! (j - 1) + 1))])
        in innerLoop a b i n (j + 1) (dp', temp)
      else (dp, prev))"
  by pat_completeness auto
termination
  by (relation "measure (\<lambda>(a, b, i, n, j, s). n + 1 - j)") auto

declare innerLoop.simps [simp del]

function outerLoop :: "'a list \<Rightarrow> 'a list \<Rightarrow> nat \<Rightarrow> nat \<Rightarrow> nat \<Rightarrow> nat list \<Rightarrow> nat list" where
  "outerLoop a b m n i dp =
     (if i \<le> m then
        let prev = dp ! 0;
            dp0 = dp[0 := i]
        in outerLoop a b m n (i + 1) (fst (innerLoop a b i n 1 (dp0, prev)))
      else dp)"
  by pat_completeness auto
termination
  by (relation "measure (\<lambda>(a, b, m, n, i, dp). m + 1 - i)") auto

declare outerLoop.simps [simp del]

definition levenshteinDistance :: "'a list \<Rightarrow> 'a list \<Rightarrow> nat" where
  "levenshteinDistance a b =
     (let m = length a; n = length b in
      if m = 0 then n
      else if n = 0 then m
      else outerLoop a b m n 1 (map (\<lambda>j. j) [0..<n + 1]) ! n)"

text \<open>
  The cost table in the words of the specification: \<open>distance(i,0) = i\<close>,
  \<open>distance(0,j) = j\<close>, and \<open>distance(i,j)\<close> is \<open>distance(i-1,j-1)\<close> where the characters
  match and one more than the least of the three neighbours otherwise. The classic
  distance of two strings is the entry at their lengths.
\<close>

fun distance :: "'a list \<Rightarrow> 'a list \<Rightarrow> nat \<Rightarrow> nat \<Rightarrow> nat" where
  "distance a b 0 j = j"
| "distance a b (Suc i) 0 = Suc i"
| "distance a b (Suc i) (Suc j) =
     (if a ! i = b ! j then distance a b i j
      else 1 + min (distance a b i (Suc j)) (min (distance a b (Suc i) j) (distance a b i j)))"

text \<open>
  Edit operations: one step inserts, deletes or replaces one element at any position;
  \<open>edits k a b\<close> holds when \<open>k\<close> steps lead from \<open>a\<close> to \<open>b\<close>.
\<close>

inductive edit1 :: "'a list \<Rightarrow> 'a list \<Rightarrow> bool" where
  insertion: "edit1 (xs @ ys) (xs @ c # ys)"
| deletion: "edit1 (xs @ c # ys) (xs @ ys)"
| substitution: "edit1 (xs @ c # ys) (xs @ d # ys)"

inductive edits :: "nat \<Rightarrow> 'a list \<Rightarrow> 'a list \<Rightarrow> bool" where
  none: "edits 0 a a"
| more: "edits k a b \<Longrightarrow> edit1 b c \<Longrightarrow> edits (Suc k) a c"

text \<open>The same recurrence read from the front of two lists, used in the proofs.\<close>

fun lev :: "'a list \<Rightarrow> 'a list \<Rightarrow> nat" where
  "lev [] ys = length ys"
| "lev (x # xs) [] = Suc (length xs)"
| "lev (x # xs) (y # ys) =
     (if x = y then lev xs ys
      else 1 + min (lev xs (y # ys)) (min (lev (x # xs) ys) (lev xs ys)))"

section \<open>Similarity and the round controller\<close>

text \<open>
  \<^verbatim>\<open>similarity\<close>. Lengths and distances are whole numbers, exact in the source as they are
  here. The quotient \<^verbatim>\<open>dist / maxLen\<close> and its difference from 1 are IEEE doubles in the
  source, each rounded once; the model computes them as exact reals, and the threshold
  \<^verbatim>\<open>0.7\<close> of \<^verbatim>\<open>handleGuessSubmit\<close> is the exact fraction 7/10.
\<close>

definition similarity :: "(jsstring \<Rightarrow> jsstring) \<Rightarrow> jsstring \<Rightarrow> jsstring \<Rightarrow> real" where
  "similarity lowerNonAscii aRaw bRaw =
     (let a = normalizeTitle lowerNonAscii aRaw;
          b = normalizeTitle lowerNonAscii bRaw
      in if length a = 0 \<and> length b = 0 then 1
         else let dist = levenshteinDistance a b;
                  maxLen = (if max (length a) (length b) = 0 then 1
                            else max (length a) (length b))
              in 1 - real dist / real maxLen)"

text \<open>
  The state of a round as \<^verbatim>\<open>Game\<close> holds it, and \<^verbatim>\<open>handleGuessSubmit\<close> as one step on
  it. \<open>currentTrack\<close> is \<open>None\<close> when \<^verbatim>\<open>tracks[currentIndex]\<close> is undefined; of a track
  only its name is read. \<open>playing\<close> stands for the audio element and its timer, which
  \<^verbatim>\<open>stopAudio\<close> halts.
\<close>

datatype outcome = Idle | Correct | Wrong

record gameTrack =
  name :: jsstring

record game =
  guess :: jsstring
  currentTrack :: "gameTrack option"
  triesLeft :: int
  revealed :: bool
  result :: outcome
  correctCount :: int
  wrongCount :: int
  playing :: bool

definition stopAudio :: "game \<Rightarrow> game" where
  "stopAudio st = st\<lparr>playing := False\<rparr>"

definition handleGuessSubmit :: "(jsstring \<Rightarrow> jsstring) \<Rightarrow> game \<Rightarrow> game" where
  "handleGuessSubmit lowerNonAscii st =
     (case currentTrack st of
        None \<Rightarrow> st
      | Some track \<Rightarrow>
          let sim = similarity lowerNonAscii (guess st) (name track) in
          if sim \<ge> 7 / 10 then
            (stopAudio (st\<lparr>result := Correct, revealed := True\<rparr>))
              \<lparr>correctCount := correctCount st + 1\<rparr>
          else
            let remaining = triesLeft st - 1;
                st' = st\<lparr>triesLeft := remaining, result := Wrong\<rparr>
            in if remaining \<le> 0 then
                 (stopAudio (st'\<lparr>revealed := True\<rparr>))\<lparr>wrongCount := wrongCount st + 1\<rparr>
               else st')"

text \<open>
  A round at its start, for the worked examples: the typed guess, the title of the track
  and the tries left.
\<close>

definition sampleRound :: "string \<Rightarrow> string \<Rightarrow> int \<Rightarrow> game" where
  "sampleRound g t n =
     \<lparr>guess = fromAscii g, currentTrack = Some \<lparr>name = fromAscii t\<rparr>, triesLeft = n,
      revealed = False, result = Idle, correctCount = 0, wrongCount = 0, playing = True\<rparr>"

section \<open>The recurrence and edit sequences\<close>

lemma lev_Nil2: "lev xs [] = length xs"
  by (cases xs) simp_all

lemma lev_sym: "lev xs ys = lev ys xs"
  by (induction xs ys rule: lev.induct) (auto simp: lev_Nil2 min.commute min.left_commute)

lemma lev_refl: "lev xs xs = 0"
  by (induction xs) simp_all

lemma lev_eq_0: "lev xs ys = 0 \<longleftrightarrow> xs = ys"
  by (induction xs ys rule: lev.induct) auto

lemma lev_le_max: "lev xs ys \<le> max (length xs) (length ys)"
  by (induction xs ys rule: lev.induct) auto

lemma lev_Cons_bounds:
  "lev (x # xs) ys \<le> Suc (lev xs ys) \<and> lev xs ys \<le> Suc (lev (x # xs) ys)"
proof (induction "length xs + length ys" arbitrary: x xs ys rule: less_induct)
  case less
  show ?case
  proof (cases ys)
    case Nil
    then show ?thesis by (simp add: lev_Nil2)
  next
    case (Cons y ys')
    have A: "lev xs ys' \<le> Suc (lev xs (y # ys'))"
      using less [of ys' xs y] by (simp add: Cons lev_sym)
    have B: "lev xs (y # ys') \<le> Suc (lev xs ys')"
      using less [of ys' xs y] by (simp add: Cons lev_sym)
    have C: "lev xs ys' \<le> Suc (lev (x # xs) ys')"
      using less [of xs ys' x] by (simp add: Cons)
    have up: "lev (x # xs) ys \<le> Suc (lev xs ys)"
      using A by (simp add: Cons)
    have down: "lev xs ys \<le> Suc (lev (x # xs) ys)"
    proof (cases "x = y")
      case True
      then show ?thesis using B by (simp add: Cons)
    next
      case False
      then show ?thesis using B C by (simp add: Cons)
    qed
    from up down show ?thesis by simp
  qed
qed

lemma lev_Cons1_le: "lev (x # xs) ys \<le> Suc (lev xs ys)"
  by (simp add: lev_Cons_bounds)

lemma lev_Cons1_ge: "lev xs ys \<le> Suc (lev (x # xs) ys)"
  by (simp add: lev_Cons_bounds)

lemma lev_Cons2_le: "lev xs (y # ys) \<le> Suc (lev xs ys)"
  using lev_Cons1_le [of y ys xs] by (simp add: lev_sym)

lemma lev_Cons2_ge: "lev xs ys \<le> Suc (lev xs (y # ys))"
  using lev_Cons1_ge [of ys xs y] by (simp add: lev_sym)

lemma lev_Cons_Cons_le: "lev (x # xs) (y # ys) \<le> Suc (lev xs ys)"
  using lev_Cons1_le [of x xs "y # ys"] lev_Cons2_ge [of xs ys y]
  by (simp split: if_splits)

text \<open>One edit on the second string moves the distance from any first string by at most one.\<close>

lemma lev_step_ctx:
  assumes "\<And>a. lev a ys \<le> Suc (lev a xs)"
  shows "lev a (c # ys) \<le> Suc (lev a (c # xs))"
proof (induction a)
  case Nil
  from assms [of "[]"] show ?case by simp
next
  case (Cons x a)
  show ?case
  proof (cases "x = c")
    case True
    then show ?thesis using assms [of a] by simp
  next
    case False
    then show ?thesis
      using Cons assms [of "x # a"] assms [of a] by (simp add: min_def)
  qed
qed

lemma lev_step_append:
  assumes "\<And>a. lev a ys \<le> Suc (lev a xs)"
  shows "lev a (ps @ ys) \<le> Suc (lev a (ps @ xs))"
proof (induction ps arbitrary: a)
  case Nil
  show ?case using assms by simp
next
  case (Cons p ps)
  show ?case using lev_step_ctx [of "ps @ ys" "ps @ xs" a p] Cons by simp
qed

lemma lev_edit1: "edit1 b c \<Longrightarrow> lev a c \<le> Suc (lev a b)"
proof (induction rule: edit1.induct)
  case (insertion xs ys c)
  show ?case by (rule lev_step_append) (rule lev_Cons2_le)
next
  case (deletion xs c ys)
  show ?case by (rule lev_step_append) (rule lev_Cons2_ge)
next
  case (substitution xs c ys d)
  have "lev a (d # ys) \<le> Suc (lev a (c # ys))" for a
  proof (cases a)
    case Nil
    then show ?thesis by simp
  next
    case (Cons x a')
    have P: "lev (x # a') (d # ys) \<le> Suc (lev a' ys)"
      by (rule lev_Cons_Cons_le)
    show ?thesis
    proof (cases "x = c")
      case True
      then show ?thesis using P by (simp add: Cons)
    next
      case False
      have "lev (x # a') (d # ys) \<le> Suc (Suc (min (lev a' (c # ys)) (min (lev (x # a') ys) (lev a' ys))))"
        using P lev_Cons1_ge [of a' ys x] lev_Cons2_ge [of a' ys c] by arith
      then show ?thesis using False by (simp add: Cons)
    qed
  qed
  then show ?case by (rule lev_step_append)
qed

lemma edits_lev_le: "edits k a b \<Longrightarrow> lev a b \<le> k"
proof (induction rule: edits.induct)
  case (none a)
  show ?case by (simp add: lev_refl)
next
  case (more k a b c)
  then show ?case using lev_edit1 [of b c a] by simp
qed

text \<open>Achievability: the recurrence's value is reached by a sequence of edits.\<close>

lemma edit1_Cons: "edit1 a b \<Longrightarrow> edit1 (x # a) (x # b)"
proof (induction rule: edit1.induct)
  case (insertion xs ys c)
  show ?case using edit1.insertion [of "x # xs" ys c] by simp
next
  case (deletion xs c ys)
  show ?case using edit1.deletion [of "x # xs" c ys] by simp
next
  case (substitution xs c ys d)
  show ?case using edit1.substitution [of "x # xs" c ys d] by simp
qed

lemma edits_Cons: "edits k a b \<Longrightarrow> edits k (x # a) (x # b)"
  by (induction rule: edits.induct) (auto intro: edits.intros edit1_Cons)

lemma edits_first: "edits k b c \<Longrightarrow> edit1 a b \<Longrightarrow> edits (Suc k) a c"
proof (induction rule: edits.induct)
  case (none b)
  then show ?case using edits.more [OF edits.none] by blast
next
  case (more k b c d)
  then show ?case using edits.more by blast
qed

lemma edits_insert_all: "edits (length ys) [] ys"
proof (induction ys rule: rev_induct)
  case Nil
  show ?case by (simp add: edits.none)
next
  case (snoc y ys)
  have "edit1 (ys @ []) (ys @ y # [])" by (rule edit1.insertion)
  then show ?case using snoc edits.more [of "length ys" "[]" ys "ys @ [y]"] by simp
qed

lemma edits_delete_all: "edits (length xs) xs []"
proof (induction xs)
  case Nil
  show ?case by (simp add: edits.none)
next
  case (Cons x xs)
  have "edit1 ([] @ x # xs) ([] @ xs)" by (rule edit1.deletion)
  then show ?case using Cons edits_first [of "length xs" xs "[]" "x # xs"] by simp
qed

lemma edits_lev: "edits (lev a b) a b"
proof (induction a b rule: lev.induct)
  case (1 ys)
  show ?case using edits_insert_all [of ys] by simp
next
  case (2 x xs)
  show ?case using edits_delete_all [of "x # xs"] by simp
next
  case (3 x xs y ys)
  show ?case
  proof (cases "x = y")
    case True
    then show ?thesis using 3 by (simp add: edits_Cons)
  next
    case False
    have del: "edit1 ([] @ x # xs) ([] @ xs)" by (rule edit1.deletion)
    have ins: "edit1 ([] @ ys) ([] @ y # ys)" by (rule edit1.insertion)
    have sub: "edit1 ([] @ x # xs) ([] @ y # xs)" by (rule edit1.substitution)
    have a: "edits (Suc (lev xs (y # ys))) (x # xs) (y # ys)"
      using edits_first [OF 3(2) [OF False]] del by simp
    have b: "edits (Suc (lev (x # xs) ys)) (x # xs) (y # ys)"
      using edits.more [OF 3(3) [OF False]] ins by simp
    have c: "edits (Suc (lev xs ys)) (x # xs) (y # ys)"
      using edits_first [OF edits_Cons [OF 3(4) [OF False], of y]] sub by simp
    show ?thesis using a b c False by (simp add: min_def)
  qed
qed

lemma edit1_rev: "edit1 a b \<Longrightarrow> edit1 (rev a) (rev b)"
proof (induction rule: edit1.induct)
  case (insertion xs ys c)
  show ?case using edit1.insertion [of "rev ys" "rev xs" c] by simp
next
  case (deletion xs c ys)
  show ?case using edit1.deletion [of "rev ys" c "rev xs"] by simp
next
  case (substitution xs c ys d)
  show ?case using edit1.substitution [of "rev ys" c "rev xs" d] by simp
qed

lemma edits_rev: "edits k a b \<Longrightarrow> edits k (rev a) (rev b)"
  by (induction rule: edits.induct) (auto intro: edits.intros edit1_rev)

section \<open>The rolling row computes the cost table\<close>

lemma distance_lev:
  "i \<le> length a \<Longrightarrow> j \<le> length b \<Longrightarrow> distance a b i j = lev (rev (take i a)) (rev (take j b))"
proof (induction a b i j rule: distance.induct)
  case (1 a b j)
  then show ?case by simp
next
  case (2 a b i)
  then show ?case by (simp add: lev_Nil2)
next
  case (3 a b i j)
  have ta: "rev (take (Suc i) a) = a ! i # rev (take i a)"
    using 3(5) by (simp add: take_Suc_conv_app_nth)
  have tb: "rev (take (Suc j) b) = b ! j # rev (take j b)"
    using 3(6) by (simp add: take_Suc_conv_app_nth)
  show ?case
  proof (cases "a ! i = b ! j")
    case True
    then show ?thesis using 3(1) 3(5,6) by (simp add: ta tb)
  next
    case False
    then show ?thesis using 3(2-4) 3(5,6) by (simp add: ta tb)
  qed
qed

lemma distance_full: "distance a b (length a) (length b) = lev (rev a) (rev b)"
  by (simp add: distance_lev)

text \<open>The inner loop: entries below j belong to row i, entries from j on to row i - 1.\<close>

lemma innerLoop_row:
  assumes "0 < i" "0 < j" "j \<le> Suc n" "length dp = Suc n"
    and "\<forall>k<j. dp ! k = distance a b i k"
    and "\<forall>k. j \<le> k \<and> k \<le> n \<longrightarrow> dp ! k = distance a b (i - 1) k"
    and "prev = distance a b (i - 1) (j - 1)"
  shows "length (fst (innerLoop a b i n j (dp, prev))) = Suc n \<and>
         (\<forall>k\<le>n. fst (innerLoop a b i n j (dp, prev)) ! k = distance a b i k)"
  using assms
proof (induction a b i n j "(dp, prev)" arbitrary: dp prev rule: innerLoop.induct)
  case (1 a b i n j dp prev)
  show ?case
  proof (cases "j \<le> n")
    case False
    with 1(4) have "j = Suc n" by simp
    moreover have "innerLoop a b i n j (dp, prev) = (dp, prev)"
      using False by (subst innerLoop.simps) simp
    ultimately show ?thesis using 1(5,6) by (simp add: less_Suc_eq_le)
  next
    case True
    obtain i' j' where ij: "i = Suc i'" "j = Suc j'"
      using 1(2,3) by (metis Suc_pred)
    define v where "v = (if a ! (i - 1) = b ! (j - 1) then prev
        else min (prev + 1) (min (dp ! j + 1) (dp ! (j - 1) + 1)))"
    define dp' where "dp' = dp[j := v]"
    have step: "innerLoop a b i n j (dp, prev) = innerLoop a b i n (j + 1) (dp', dp ! j)"
      using True by (subst innerLoop.simps) (simp add: dp'_def v_def Let_def)
    have dpj: "dp ! j = distance a b i' j" using 1(7) True ij by simp
    have dpj': "dp ! j' = distance a b i j'" using 1(6) ij by simp
    have pv: "prev = distance a b i' j'" using 1(8) ij by simp
    have v: "v = distance a b i j"
      unfolding v_def using dpj dpj' pv ij by (simp add: min.commute min.left_commute)
    have "length (fst (innerLoop a b i n (j + 1) (dp', dp ! j))) = Suc n \<and>
         (\<forall>k\<le>n. fst (innerLoop a b i n (j + 1) (dp', dp ! j)) ! k = distance a b i k)"
    proof (rule 1(1) [OF True refl _ 1(2)])
      show "dp' = (if a ! (i - 1) = b ! (j - 1) then dp[j := prev]
          else dp[j := min (prev + 1) (min (dp ! j + 1) (dp ! (j - 1) + 1))])"
        by (simp add: dp'_def v_def)
      show "0 < j + 1" by simp
      show "j + 1 \<le> Suc n" using True by simp
      show "length dp' = Suc n" using 1(5) by (simp add: dp'_def)
      have jl: "j < length dp" using 1(5) True by simp
      show "\<forall>k<j + 1. dp' ! k = distance a b i k"
        using 1(6) jl v by (auto simp: dp'_def nth_list_update less_Suc_eq)
      show "\<forall>k. j + 1 \<le> k \<and> k \<le> n \<longrightarrow> dp' ! k = distance a b (i - 1) k"
        using 1(5,7) by (auto simp: dp'_def nth_list_update)
      show "dp ! j = distance a b (i - 1) (j + 1 - 1)" using dpj ij by simp
    qed
    then show ?thesis unfolding step by simp
  qed
qed

lemma outerLoop_row:
  assumes "0 < i" "i \<le> Suc m" "0 < n" "length dp = Suc n"
    and "\<forall>k\<le>n. dp ! k = distance a b (i - 1) k"
  shows "\<forall>k\<le>n. outerLoop a b m n i dp ! k = distance a b m k"
  using assms
proof (induction a b m n i dp rule: outerLoop.induct)
  case (1 a b m n i dp)
  show ?case
  proof (cases "i \<le> m")
    case False
    with 1(3) have "i = Suc m" by simp
    moreover have "outerLoop a b m n i dp = dp"
      using False by (subst outerLoop.simps) simp
    ultimately show ?thesis using 1(6) by simp
  next
    case True
    obtain i' where i: "i = Suc i'"
      using 1(2) by (metis Suc_pred)
    define dp0 where "dp0 = dp[0 := i]"
    define row where "row = fst (innerLoop a b i n 1 (dp0, dp ! 0))"
    have step: "outerLoop a b m n i dp = outerLoop a b m n (i + 1) row"
      using True by (subst outerLoop.simps) (simp add: row_def dp0_def Let_def)
    have inner: "length row = Suc n \<and> (\<forall>k\<le>n. row ! k = distance a b i k)"
      unfolding row_def
    proof (rule innerLoop_row)
      show "0 < i" by (rule 1(2))
      show "0 < (1::nat)" by simp
      show "1 \<le> Suc n" by simp
      show "length dp0 = Suc n" using 1(5) by (simp add: dp0_def)
      show "\<forall>k<1. dp0 ! k = distance a b i k"
        using 1(5) i by (simp add: dp0_def)
      show "\<forall>k. 1 \<le> k \<and> k \<le> n \<longrightarrow> dp0 ! k = distance a b (i - 1) k"
        using 1(5,6) by (auto simp: dp0_def)
      show "dp ! 0 = distance a b (i - 1) (1 - 1)" using 1(6) by simp
    qed
    have "\<forall>k\<le>n. outerLoop a b m n (i + 1) (fst (innerLoop a b i n 1 (dp[0 := i], dp ! 0))) ! k
        = distance a b m k"
    proof (rule 1(1) [OF True refl refl])
      show "0 < i + 1" by simp
      show "i + 1 \<le> Suc m" using True by simp
      show "0 < n" by (rule 1(4))
      show "length (fst (innerLoop a b i n 1 (dp[0 := i], dp ! 0))) = Suc n"
        using inner by (simp add: row_def dp0_def)
      show "\<forall>k\<le>n. fst (innerLoop a b i n 1 (dp[0 := i], dp ! 0)) ! k = distance a b (i + 1 - 1) k"
        using inner by (simp add: row_def dp0_def)
    qed
    then show ?thesis unfolding step row_def dp0_def by simp
  qed
qed

lemma levenshteinDistance_distance:
  "levenshteinDistance a b = distance a b (length a) (length b)"
proof (cases "length a = 0 \<or> length b = 0")
  case True
  then show ?thesis
    by (cases "length a") (auto simp: levenshteinDistance_def)
next
  case False
  have "\<forall>k\<le>length b. outerLoop a b (length a) (length b) 1 (map (\<lambda>j. j) [0..<length b + 1]) ! k
      = distance a b (length a) k"
  proof (rule outerLoop_row)
    show "\<forall>k\<le>length b. map (\<lambda>j. j) [0..<length b + 1] ! k = distance a b (1 - 1) k"
      by (auto simp: nth_append less_Suc_eq_le simp del: upt_Suc)
  qed (use False in simp_all)
  then show ?thesis using False by (simp add: levenshteinDistance_def)
qed

lemma levenshteinDistance_lev: "levenshteinDistance a b = lev (rev a) (rev b)"
  by (simp add: levenshteinDistance_distance distance_full)

text \<open>
  Claim C3. For every pair of strings, \<^verbatim>\<open>levenshteinDistance\<close> with its single rolling row
  returns the entry of the full cost table at the two lengths (base cases
  \<open>distance(i,0) = i\<close> and \<open>distance(0,j) = j\<close>, the match and mismatch transition), and
  that number is the least number of single-character insertions, deletions and
  substitutions that turn \<open>a\<close> into \<open>b\<close>: some sequence of that many edits does it, and
  no shorter one does.
\<close>

theorem levenshteinDistance_classic:
  "levenshteinDistance a b = distance a b (length a) (length b) \<and>
   edits (levenshteinDistance a b) a b \<and>
   (\<forall>k. edits k a b \<longrightarrow> levenshteinDistance a b \<le> k)"
proof -
  have "edits (lev (rev a) (rev b)) a b"
    using edits_rev [OF edits_lev [of "rev a" "rev b"]] by simp
  moreover have "lev (rev a) (rev b) \<le> k" if "edits k a b" for k
    using edits_lev_le [OF edits_rev [OF that]] .
  ultimately show ?thesis
    by (simp add: levenshteinDistance_distance distance_full)
qed

theorem levenshteinDistance_classic_witness:
  "edits 3 ''kitten'' ''sitting'' \<and>
   levenshteinDistance ''kitten'' ''sitting'' \<le> 3 \<and>
   levenshteinDistance ''kitten'' ''sitting'' = distance ''kitten'' ''sitting'' 6 7 \<and>
   distance ''kitten'' ''sitting'' 6 7 = 3"
proof -
  have s1: "edit1 ([] @ CHR ''k'' # ''itten'') ([] @ CHR ''s'' # ''itten'')"
    by (rule edit1.substitution)
  have s2: "edit1 (''sitt'' @ CHR ''e'' # ''n'') (''sitt'' @ CHR ''i'' # ''n'')"
    by (rule edit1.substitution)
  have s3: "edit1 (''sittin'' @ []) (''sittin'' @ CHR ''g'' # [])"
    by (rule edit1.insertion)
  have e1: "edits (Suc 0) ''kitten'' ''sitten''"
    using edits.more [OF edits.none s1] by simp
  have e2: "edits (Suc (Suc 0)) ''kitten'' ''sittin''"
    using edits.more [OF e1] s2 by simp
  have e3: "edits (Suc (Suc (Suc 0))) ''kitten'' ''sitting''"
    using edits.more [OF e2] s3 by simp
  have e: "edits 3 ''kitten'' ''sitting''"
    using e3 by (simp add: numeral_3_eq_3)
  have d: "distance ''kitten'' ''sitting'' 6 7 = 3"
    by code_simp
  show ?thesis
    using levenshteinDistance_classic [of "''kitten''" "''sitting''"] e d by simp
qed

section \<open>Properties of the edit distance\<close>

lemma levenshteinDistance_sym: "levenshteinDistance a b = levenshteinDistance b a"
  by (simp add: levenshteinDistance_lev lev_sym)

lemma levenshteinDistance_le_max: "levenshteinDistance a b \<le> max (length a) (length b)"
  using lev_le_max [of "rev a" "rev b"] by (simp add: levenshteinDistance_lev)

lemma levenshteinDistance_eq_0: "levenshteinDistance a b = 0 \<longleftrightarrow> a = b"
  by (simp add: levenshteinDistance_lev lev_eq_0)

lemma levenshteinDistance_Nil1: "levenshteinDistance [] b = length b"
  by (simp add: levenshteinDistance_def)

lemma levenshteinDistance_Nil2: "levenshteinDistance a [] = length a"
  by (simp add: levenshteinDistance_def Let_def)

section \<open>The steps of the normalizer\<close>

lemma isWhiteSpace_space: "isWhiteSpace 0x20"
  by (simp add: isWhiteSpace_def)

lemma isLowerAlnum_ascii: "isLowerAlnum c \<Longrightarrow> isAscii c"
  by (auto simp: isLowerAlnum_def isAscii_def word_le_nat_alt word_less_nat_alt)

lemma isLowerAlnum_lower: "isLowerAlnum c \<Longrightarrow> lowerAscii c = c"
  by (auto simp: isLowerAlnum_def lowerAscii_def word_le_nat_alt word_less_nat_alt)

lemma isLowerAlnum_not_space: "isLowerAlnum c \<Longrightarrow> \<not> isWhiteSpace c"
  by (auto simp: isLowerAlnum_def isWhiteSpace_def word_le_nat_alt word_less_nat_alt)

lemma isLowerAlnum_not_delim:
  "isLowerAlnum c \<Longrightarrow> c \<noteq> 0x28 \<and> c \<noteq> 0x29 \<and> c \<noteq> 0x5B \<and> c \<noteq> 0x5D"
  by (auto simp: isLowerAlnum_def)

lemma isAsciiPunct_ascii: "isAsciiPunct c \<Longrightarrow> isAscii c"
  by (auto simp: isAsciiPunct_def isAscii_def word_le_nat_alt word_less_nat_alt)

lemma isAsciiPunct_lower: "isAsciiPunct c \<Longrightarrow> lowerAscii c = c"
  by (auto simp: isAsciiPunct_def lowerAscii_def word_le_nat_alt word_less_nat_alt)

lemma isAsciiPunct_not_alnum: "isAsciiPunct c \<Longrightarrow> \<not> isLowerAlnum c"
  by (auto simp: isAsciiPunct_def isLowerAlnum_def word_le_nat_alt word_less_nat_alt)

lemma isAsciiPunct_not_space: "isAsciiPunct c \<Longrightarrow> \<not> isWhiteSpace c"
  by (auto simp: isAsciiPunct_def isWhiteSpace_def word_le_nat_alt word_less_nat_alt)

lemma lowerAscii_upper: "0x41 \<le> c \<Longrightarrow> c \<le> 0x5A \<Longrightarrow> isLowerAlnum (lowerAscii c)"
proof -
  assume a: "0x41 \<le> c" "c \<le> 0x5A"
  have u: "65 \<le> unat c" "unat c \<le> 90" using a by (simp_all add: word_le_nat_alt)
  have "unat (c + 0x20) = unat c + 32"
    using u by (simp add: unat_word_ariths)
  then have "0x61 \<le> c + 0x20 \<and> c + 0x20 \<le> 0x7A"
    using u by (simp add: word_le_nat_alt)
  then show ?thesis using a by (simp add: lowerAscii_def isLowerAlnum_def)
qed

lemma lowerAscii_delim:
  "lowerAscii c = 0x28 \<longleftrightarrow> c = 0x28" "lowerAscii c = 0x29 \<longleftrightarrow> c = 0x29"
  "lowerAscii c = 0x5B \<longleftrightarrow> c = 0x5B" "lowerAscii c = 0x5D \<longleftrightarrow> c = 0x5D"
proof -
  have "lowerAscii c = c \<or> isLowerAlnum (lowerAscii c)"
    using lowerAscii_upper [of c] by (auto simp: lowerAscii_def)
  then show "lowerAscii c = 0x28 \<longleftrightarrow> c = 0x28" "lowerAscii c = 0x29 \<longleftrightarrow> c = 0x29"
    "lowerAscii c = 0x5B \<longleftrightarrow> c = 0x5B" "lowerAscii c = 0x5D \<longleftrightarrow> c = 0x5D"
    using isLowerAlnum_not_delim [of "lowerAscii c"] by (auto simp: lowerAscii_def)
qed

lemma delim_map_lowerAscii:
  "0x28 \<in> set (map lowerAscii s) \<longleftrightarrow> 0x28 \<in> set s"
  "0x29 \<in> set (map lowerAscii s) \<longleftrightarrow> 0x29 \<in> set s"
  "0x5B \<in> set (map lowerAscii s) \<longleftrightarrow> 0x5B \<in> set s"
  "0x5D \<in> set (map lowerAscii s) \<longleftrightarrow> 0x5D \<in> set s"
  by (induction s) (auto simp: lowerAscii_delim)

text \<open>
  One step of the bracket scan, case by case.
\<close>

lemma set_tl_dropWhile: "set (tl (dropWhile P cs)) \<subseteq> set cs"
proof
  fix x
  assume x: "x \<in> set (tl (dropWhile P cs))"
  then have "dropWhile P cs \<noteq> []" by (cases "dropWhile P cs") simp_all
  then have "x \<in> set (dropWhile P cs)" using x by (rule list.set_sel(2))
  then show "x \<in> set cs" by (rule set_dropWhileD)
qed

lemma stripBrackets_open_paren:
  "0x29 \<in> set cs \<Longrightarrow> stripBrackets (0x28 # cs) = stripBrackets (tl (dropWhile (\<lambda>x. x \<noteq> 0x29) cs))"
  by (simp add: stripBrackets.simps(2))

lemma stripBrackets_open_square:
  "0x5D \<in> set cs \<Longrightarrow> stripBrackets (0x5B # cs) = stripBrackets (tl (dropWhile (\<lambda>x. x \<noteq> 0x5D) cs))"
  by (simp add: stripBrackets.simps(2))

lemma stripBrackets_keep:
  assumes "c = 0x28 \<longrightarrow> 0x29 \<notin> set rest" and "c = 0x5B \<longrightarrow> 0x5D \<notin> set rest"
  shows "stripBrackets (c # rest) = c # stripBrackets rest"
proof -
  have "\<not> (c = 0x28 \<and> 0x29 \<in> set rest)" "\<not> (c = 0x5B \<and> 0x5D \<in> set rest)"
    using assms by blast+
  then show ?thesis by (subst stripBrackets.simps(2)) (simp only: if_False)
qed

lemma set_stripBrackets: "set (stripBrackets s) \<subseteq> set s"
proof (induction s rule: stripBrackets.induct)
  case 1
  show ?case by simp
next
  case (2 c cs)
  show ?case
  proof (cases "c = 0x28 \<and> 0x29 \<in> set cs")
    case True
    then have "stripBrackets (c # cs) = stripBrackets (tl (dropWhile (\<lambda>x. x \<noteq> 0x29) cs))"
      by (simp add: stripBrackets_open_paren)
    then show ?thesis
      using 2(1) [OF True] set_tl_dropWhile [of "\<lambda>x. x \<noteq> 0x29" cs] by auto
  next
    case False
    note np = False
    show ?thesis
    proof (cases "c = 0x5B \<and> 0x5D \<in> set cs")
      case True
      then have "stripBrackets (c # cs) = stripBrackets (tl (dropWhile (\<lambda>x. x \<noteq> 0x5D) cs))"
        by (simp add: stripBrackets_open_square)
      then show ?thesis
        using 2(2) [OF np True] set_tl_dropWhile [of "\<lambda>x. x \<noteq> 0x5D" cs] by auto
    next
      case False
      then have "stripBrackets (c # cs) = c # stripBrackets cs"
        using np by (intro stripBrackets_keep) blast+
      then show ?thesis using 2(3) [OF np False] by auto
    qed
  qed
qed

lemma stripBrackets_id: "0x28 \<notin> set s \<Longrightarrow> 0x5B \<notin> set s \<Longrightarrow> stripBrackets s = s"
proof (induction s)
  case Nil
  show ?case by simp
next
  case (Cons c cs)
  then have "stripBrackets (c # cs) = c # stripBrackets cs"
    by (intro stripBrackets_keep) auto
  then show ?case using Cons by simp
qed

lemma tl_dropWhile_first: "d \<notin> set mid \<Longrightarrow> tl (dropWhile (\<lambda>x. x \<noteq> d) (mid @ d # rest)) = rest"
  by (induction mid) auto

lemma stripBrackets_paren: "0x29 \<notin> set mid \<Longrightarrow> stripBrackets (0x28 # mid @ 0x29 # rest) = stripBrackets rest"
  by (simp add: stripBrackets_open_paren tl_dropWhile_first)

lemma stripBrackets_square: "0x5D \<notin> set mid \<Longrightarrow> stripBrackets (0x5B # mid @ 0x5D # rest) = stripBrackets rest"
  by (simp add: stripBrackets_open_square tl_dropWhile_first)

lemma stripBrackets_prefix:
  "0x28 \<notin> set pre \<Longrightarrow> 0x5B \<notin> set pre \<Longrightarrow> stripBrackets (pre @ s) = pre @ stripBrackets s"
proof (induction pre)
  case Nil
  show ?case by simp
next
  case (Cons c pre)
  then have "stripBrackets (c # (pre @ s)) = c # stripBrackets (pre @ s)"
    by (intro stripBrackets_keep) auto
  then show ?case using Cons by simp
qed

text \<open>
  White space collapsing.
\<close>

lemma collapseWhitespace_ws:
  "isWhiteSpace c \<Longrightarrow> collapseWhitespace (c # cs) = 0x20 # collapseWhitespace (dropWhile isWhiteSpace cs)"
  by (simp add: collapseWhitespace.simps(2))

lemma collapseWhitespace_other:
  "\<not> isWhiteSpace c \<Longrightarrow> collapseWhitespace (c # cs) = c # collapseWhitespace cs"
  by (simp add: collapseWhitespace.simps(2))

lemma collapseWhitespace_set:
  "c \<in> set (collapseWhitespace s) \<Longrightarrow> c = 0x20 \<or> (c \<in> set s \<and> \<not> isWhiteSpace c)"
proof (induction s rule: collapseWhitespace.induct)
  case 1
  then show ?case by simp
next
  case (2 x xs)
  show ?case
  proof (cases "isWhiteSpace x")
    case True
    then show ?thesis
      using 2(1) [OF True] 2(3) by (auto simp: collapseWhitespace_ws dest: set_dropWhileD)
  next
    case False
    then show ?thesis
      using 2(2) [OF False] 2(3) by (auto simp: collapseWhitespace_other)
  qed
qed

lemma collapseWhitespace_hd:
  "collapseWhitespace s = y # ys \<Longrightarrow> s \<noteq> [] \<and> (if isWhiteSpace (hd s) then y = 0x20 else y = hd s)"
proof (cases s)
  case Nil
  assume "collapseWhitespace s = y # ys"
  then show ?thesis using Nil by simp
next
  case (Cons c cs)
  assume "collapseWhitespace s = y # ys"
  then show ?thesis
    using Cons by (cases "isWhiteSpace c") (simp_all add: collapseWhitespace_ws collapseWhitespace_other)
qed

lemma noDoubleSpace_Cons:
  "noDoubleSpace (x # ys) = ((ys = [] \<or> x \<noteq> 0x20 \<or> hd ys \<noteq> 0x20) \<and> noDoubleSpace ys)"
  by (cases ys) auto

lemma noDoubleSpace_collapse: "noDoubleSpace (collapseWhitespace s)"
proof (induction s rule: collapseWhitespace.induct)
  case 1
  show ?case by simp
next
  case (2 c cs)
  show ?case
  proof (cases "isWhiteSpace c")
    case True
    have "hd (collapseWhitespace (dropWhile isWhiteSpace cs)) \<noteq> 0x20"
      if ne: "collapseWhitespace (dropWhile isWhiteSpace cs) \<noteq> []"
    proof -
      obtain y ys where e: "collapseWhitespace (dropWhile isWhiteSpace cs) = y # ys"
        using ne by (cases "collapseWhitespace (dropWhile isWhiteSpace cs)") auto
      have d: "dropWhile isWhiteSpace cs \<noteq> []"
        using collapseWhitespace_hd [OF e] by simp
      have "\<not> isWhiteSpace (hd (dropWhile isWhiteSpace cs))"
        using d by (rule hd_dropWhile)
      then have "y = hd (dropWhile isWhiteSpace cs)" "\<not> isWhiteSpace y"
        using collapseWhitespace_hd [OF e] by simp_all
      then show ?thesis using e isWhiteSpace_space by auto
    qed
    then show ?thesis
      using True 2(1) [OF True] by (auto simp: collapseWhitespace_ws noDoubleSpace_Cons)
  next
    case False
    then have "c \<noteq> 0x20" using isWhiteSpace_space by auto
    then show ?thesis
      using False 2(2) [OF False] by (simp add: collapseWhitespace_other noDoubleSpace_Cons)
  qed
qed

lemma collapseWhitespace_id:
  "\<forall>c\<in>set s. isWhiteSpace c \<longrightarrow> c = 0x20 \<Longrightarrow> noDoubleSpace s \<Longrightarrow> collapseWhitespace s = s"
proof (induction s rule: collapseWhitespace.induct)
  case 1
  show ?case by simp
next
  case (2 c cs)
  have tail: "noDoubleSpace cs" "\<forall>c\<in>set cs. isWhiteSpace c \<longrightarrow> c = 0x20"
    using 2(3,4) by (simp_all add: noDoubleSpace_Cons)
  show ?case
  proof (cases "isWhiteSpace c")
    case True
    then have c: "c = 0x20" using 2(3) by simp
    have "dropWhile isWhiteSpace cs = cs"
    proof (cases cs)
      case Nil
      then show ?thesis by simp
    next
      case (Cons y ys)
      then have "y \<noteq> 0x20" using 2(4) c by simp
      then have "\<not> isWhiteSpace y" using 2(3) Cons by auto
      then show ?thesis using Cons by simp
    qed
    then show ?thesis
      using True c 2(1) [OF True] tail by (simp add: collapseWhitespace_ws)
  next
    case False
    then show ?thesis
      using 2(2) [OF False] tail by (simp add: collapseWhitespace_other)
  qed
qed

lemma noDoubleSpace_nth:
  "noDoubleSpace s \<Longrightarrow> Suc i < length s \<Longrightarrow> s ! i \<noteq> 0x20 \<or> s ! Suc i \<noteq> 0x20"
proof (induction s arbitrary: i rule: noDoubleSpace.induct)
  case (1 x y zs)
  then show ?case by (cases i) auto
qed simp_all

text \<open>
  Trimming keeps a segment of the string.
\<close>

lemma trim_take_drop: "\<exists>j k. trim s = take k (drop j s)"
proof -
  define t where "t = dropWhile isWhiteSpace s"
  have "t = drop (length (takeWhile isWhiteSpace s)) s"
    by (simp add: t_def dropWhile_eq_drop)
  moreover have "rev (dropWhile isWhiteSpace (rev t)) = take (length t - length (takeWhile isWhiteSpace (rev t))) t"
    by (simp add: dropWhile_eq_drop rev_drop)
  ultimately show ?thesis unfolding trim_def t_def [symmetric] by metis
qed

lemma set_trim: "set (trim s) \<subseteq> set s"
proof -
  obtain j k where "trim s = take k (drop j s)" using trim_take_drop by blast
  then show ?thesis by (auto dest: in_set_takeD in_set_dropD)
qed

lemma noDoubleSpace_drop: "noDoubleSpace s \<Longrightarrow> noDoubleSpace (drop j s)"
proof (induction j arbitrary: s)
  case 0
  then show ?case by simp
next
  case (Suc j)
  then show ?case by (cases s) (simp_all add: noDoubleSpace_Cons)
qed

lemma noDoubleSpace_take: "noDoubleSpace s \<Longrightarrow> noDoubleSpace (take k s)"
proof (induction k arbitrary: s)
  case 0
  then show ?case by simp
next
  case (Suc k)
  show ?case
  proof (cases s)
    case Nil
    then show ?thesis by simp
  next
    case (Cons x xs)
    have "noDoubleSpace (take k xs)" using Suc Cons by (simp add: noDoubleSpace_Cons)
    moreover have "take k xs \<noteq> [] \<Longrightarrow> hd (take k xs) = hd xs" by (cases k; cases xs) simp_all
    moreover have "take k xs \<noteq> [] \<Longrightarrow> xs \<noteq> []" by auto
    ultimately show ?thesis using Suc(2) Cons by (auto simp: noDoubleSpace_Cons)
  qed
qed

lemma noDoubleSpace_trim: "noDoubleSpace s \<Longrightarrow> noDoubleSpace (trim s)"
proof -
  assume s: "noDoubleSpace s"
  obtain j k where "trim s = take k (drop j s)" using trim_take_drop by blast
  then show ?thesis using noDoubleSpace_take [OF noDoubleSpace_drop [OF s]] by simp
qed

lemma trim_ends:
  "trim s \<noteq> [] \<Longrightarrow> \<not> isWhiteSpace (hd (trim s)) \<and> \<not> isWhiteSpace (last (trim s))"
proof -
  assume ne: "trim s \<noteq> []"
  define t where "t = dropWhile isWhiteSpace s"
  define u where "u = dropWhile isWhiteSpace (rev t)"
  have tr: "trim s = rev u" by (simp add: trim_def t_def u_def)
  have u: "u \<noteq> []" using ne tr by simp
  then have l: "\<not> isWhiteSpace (hd u)" unfolding u_def by (rule hd_dropWhile)
  have "t \<noteq> []" using u by (auto simp: u_def)
  then have ht: "\<not> isWhiteSpace (hd t)" unfolding t_def by (rule hd_dropWhile)
  have "rev u = take (length t - length (takeWhile isWhiteSpace (rev t))) t"
    by (simp add: u_def dropWhile_eq_drop rev_drop)
  then have "hd (rev u) = hd t" using u by (metis hd_take rev_is_Nil_conv take_eq_Nil not_gr_zero)
  then show ?thesis using l ht u by (simp add: tr last_rev)
qed

lemma trim_id:
  "s = [] \<or> (\<not> isWhiteSpace (hd s) \<and> \<not> isWhiteSpace (last s)) \<Longrightarrow> trim s = s"
proof (cases s)
  case Nil
  then show ?thesis by (simp add: trim_def)
next
  case (Cons x xs)
  assume "s = [] \<or> (\<not> isWhiteSpace (hd s) \<and> \<not> isWhiteSpace (last s))"
  then have h: "\<not> isWhiteSpace (hd s)" "\<not> isWhiteSpace (last s)" using Cons by auto
  have a: "dropWhile isWhiteSpace s = s" using h(1) Cons by simp
  have "hd (rev s) = last s" using Cons by (simp add: hd_rev)
  then have b: "dropWhile isWhiteSpace (rev s) = rev s"
    using h(2) Cons by (cases "rev s") auto
  show ?thesis by (simp add: trim_def a b)
qed

section \<open>The normalizer\<close>

lemma normalizeTitle_chars:
  assumes "c \<in> set (normalizeTitle L s)"
  shows "isLowerAlnum c \<or> c = 0x20"
proof -
  have "c \<in> set (collapseWhitespace (removeNonAlnum (stripBrackets (toLowerCase L s))))"
    using assms set_trim unfolding normalizeTitle_def by blast
  then have "c = 0x20 \<or> (c \<in> set (removeNonAlnum (stripBrackets (toLowerCase L s))) \<and> \<not> isWhiteSpace c)"
    by (rule collapseWhitespace_set)
  then show ?thesis by (auto simp: removeNonAlnum_def)
qed

lemma normalizeTitle_noDoubleSpace: "noDoubleSpace (normalizeTitle L s)"
  unfolding normalizeTitle_def by (intro noDoubleSpace_trim noDoubleSpace_collapse)

lemma normalizeTitle_ends:
  "normalizeTitle L s \<noteq> [] \<Longrightarrow>
     \<not> isWhiteSpace (hd (normalizeTitle L s)) \<and> \<not> isWhiteSpace (last (normalizeTitle L s))"
  unfolding normalizeTitle_def by (rule trim_ends)

lemma normalizeTitle_no_delims:
  "0x28 \<notin> set (normalizeTitle L s) \<and> 0x29 \<notin> set (normalizeTitle L s) \<and>
   0x5B \<notin> set (normalizeTitle L s) \<and> 0x5D \<notin> set (normalizeTitle L s)"
  using normalizeTitle_chars [of _ L s] isLowerAlnum_not_delim by fastforce

lemma normalizeTitle_empty:
  assumes "\<forall>c\<in>set (toLowerCase L s). \<not> isLowerAlnum c \<and> \<not> isWhiteSpace c"
  shows "normalizeTitle L s = []"
proof -
  have "\<forall>c\<in>set (stripBrackets (toLowerCase L s)). \<not> isLowerAlnum c \<and> \<not> isWhiteSpace c"
    using assms set_stripBrackets by blast
  then have "removeNonAlnum (stripBrackets (toLowerCase L s)) = []"
    by (simp add: removeNonAlnum_def filter_empty_conv)
  then show ?thesis by (simp add: normalizeTitle_def trim_def)
qed

lemma toLowerCase_punct:
  assumes "\<forall>c\<in>set s. isAsciiPunct c"
  shows "toLowerCase L s = s"
proof -
  have "list_all isAscii s" using assms by (simp add: list_all_iff isAsciiPunct_ascii)
  moreover have "map lowerAscii s = s"
    using assms by (simp add: map_idI isAsciiPunct_lower)
  ultimately show ?thesis by (simp add: toLowerCase_def)
qed

lemma normalizeTitle_punct:
  assumes "\<forall>c\<in>set s. isAsciiPunct c"
  shows "normalizeTitle L s = []"
  using assms by (intro normalizeTitle_empty) (simp add: toLowerCase_punct isAsciiPunct_not_alnum isAsciiPunct_not_space)

lemma normalizeTitle_idem: "normalizeTitle L (normalizeTitle L s) = normalizeTitle L s"
proof -
  define t where "t = normalizeTitle L s"
  have chars: "\<forall>c\<in>set t. isLowerAlnum c \<or> c = 0x20"
    using normalizeTitle_chars unfolding t_def by blast
  have ascii: "list_all isAscii t"
    using chars isLowerAlnum_ascii by (auto simp: list_all_iff isAscii_def)
  have "lowerAscii 0x20 = 0x20" by (simp add: lowerAscii_def)
  then have "map lowerAscii t = t"
    using chars isLowerAlnum_lower by (intro map_idI) auto
  then have low: "toLowerCase L t = t" using ascii by (simp add: toLowerCase_def)
  have strip: "stripBrackets t = t"
    using normalizeTitle_no_delims [of L s] unfolding t_def by (intro stripBrackets_id) simp_all
  have filt: "removeNonAlnum t = t"
    using chars isWhiteSpace_space by (auto simp: removeNonAlnum_def filter_id_conv)
  have ws: "\<forall>c\<in>set t. isWhiteSpace c \<longrightarrow> c = 0x20"
    using chars isLowerAlnum_not_space by blast
  have coll: "collapseWhitespace t = t"
    using ws normalizeTitle_noDoubleSpace [of L s] unfolding t_def by (rule collapseWhitespace_id)
  have tr: "trim t = t"
    using normalizeTitle_ends [of L s] unfolding t_def by (intro trim_id) blast
  have "normalizeTitle L t = t"
    by (simp add: normalizeTitle_def [of L t] low strip filt coll tr)
  then show ?thesis by (simp add: t_def)
qed

lemma normalizeTitle_paren_group:
  assumes "list_all isAscii (pre @ mid @ rest)"
    and "0x28 \<notin> set pre" "0x5B \<notin> set pre" "0x29 \<notin> set mid"
  shows "normalizeTitle L (pre @ 0x28 # mid @ 0x29 # rest) = normalizeTitle L (pre @ rest)"
proof -
  have d: "isAscii 0x28" "isAscii 0x29" "lowerAscii 0x28 = 0x28" "lowerAscii 0x29 = 0x29"
    by (simp_all add: isAscii_def lowerAscii_def)
  have l1: "toLowerCase L (pre @ 0x28 # mid @ 0x29 # rest)
      = map lowerAscii pre @ 0x28 # map lowerAscii mid @ 0x29 # map lowerAscii rest"
    using assms(1) d by (simp add: toLowerCase_def)
  have l2: "toLowerCase L (pre @ rest) = map lowerAscii pre @ map lowerAscii rest"
    using assms(1) by (simp add: toLowerCase_def)
  have p: "0x28 \<notin> set (map lowerAscii pre)" "0x5B \<notin> set (map lowerAscii pre)"
    "0x29 \<notin> set (map lowerAscii mid)"
    using assms(2-4) by (simp_all only: delim_map_lowerAscii not_False_eq_True)
  have "stripBrackets (toLowerCase L (pre @ 0x28 # mid @ 0x29 # rest))
      = stripBrackets (toLowerCase L (pre @ rest))"
    unfolding l1 l2
    by (simp only: stripBrackets_prefix [OF p(1,2)] stripBrackets_paren [OF p(3)])
  then show ?thesis by (simp only: normalizeTitle_def)
qed

lemma normalizeTitle_square_group:
  assumes "list_all isAscii (pre @ mid @ rest)"
    and "0x28 \<notin> set pre" "0x5B \<notin> set pre" "0x5D \<notin> set mid"
  shows "normalizeTitle L (pre @ 0x5B # mid @ 0x5D # rest) = normalizeTitle L (pre @ rest)"
proof -
  have d: "isAscii 0x5B" "isAscii 0x5D" "lowerAscii 0x5B = 0x5B" "lowerAscii 0x5D = 0x5D"
    by (simp_all add: isAscii_def lowerAscii_def)
  have l1: "toLowerCase L (pre @ 0x5B # mid @ 0x5D # rest)
      = map lowerAscii pre @ 0x5B # map lowerAscii mid @ 0x5D # map lowerAscii rest"
    using assms(1) d by (simp add: toLowerCase_def)
  have l2: "toLowerCase L (pre @ rest) = map lowerAscii pre @ map lowerAscii rest"
    using assms(1) by (simp add: toLowerCase_def)
  have p: "0x28 \<notin> set (map lowerAscii pre)" "0x5B \<notin> set (map lowerAscii pre)"
    "0x5D \<notin> set (map lowerAscii mid)"
    using assms(2-4) by (simp_all only: delim_map_lowerAscii not_False_eq_True)
  have "stripBrackets (toLowerCase L (pre @ 0x5B # mid @ 0x5D # rest))
      = stripBrackets (toLowerCase L (pre @ rest))"
    unfolding l1 l2
    by (simp only: stripBrackets_prefix [OF p(1,2)] stripBrackets_square [OF p(3)])
  then show ?thesis by (simp only: normalizeTitle_def)
qed

text \<open>
  Groups and unmatched opening delimiters in a lowercased string of any code units.
\<close>

lemma normalizeTitle_lowered: "normalizeTitle L s = normalizeLowered (toLowerCase L s)"
  by (simp add: normalizeTitle_def normalizeLowered_def)

lemma normalizeLowered_paren_group:
  assumes "0x28 \<notin> set pre" "0x5B \<notin> set pre" "0x29 \<notin> set mid"
  shows "normalizeLowered (pre @ 0x28 # mid @ 0x29 # rest) = normalizeLowered (pre @ rest)"
  unfolding normalizeLowered_def
  by (simp only: stripBrackets_prefix [OF assms(1,2)] stripBrackets_paren [OF assms(3)])

lemma normalizeLowered_square_group:
  assumes "0x28 \<notin> set pre" "0x5B \<notin> set pre" "0x5D \<notin> set mid"
  shows "normalizeLowered (pre @ 0x5B # mid @ 0x5D # rest) = normalizeLowered (pre @ rest)"
  unfolding normalizeLowered_def
  by (simp only: stripBrackets_prefix [OF assms(1,2)] stripBrackets_square [OF assms(3)])

lemma removeNonAlnum_delim:
  "removeNonAlnum (xs @ 0x28 # ys) = removeNonAlnum (xs @ ys)"
  "removeNonAlnum (xs @ 0x5B # ys) = removeNonAlnum (xs @ ys)"
  by (simp_all add: removeNonAlnum_def isLowerAlnum_def isWhiteSpace_def)

lemma normalizeLowered_unmatched_paren:
  assumes "0x28 \<notin> set pre" "0x5B \<notin> set pre" "0x29 \<notin> set rest"
  shows "normalizeLowered (pre @ 0x28 # rest) = normalizeLowered (pre @ rest)"
proof -
  have "stripBrackets (0x28 # rest) = 0x28 # stripBrackets rest"
    using assms(3) by (intro stripBrackets_keep) simp_all
  then show ?thesis
    unfolding normalizeLowered_def
    by (simp only: stripBrackets_prefix [OF assms(1,2)] removeNonAlnum_delim)
qed

lemma normalizeLowered_unmatched_square:
  assumes "0x28 \<notin> set pre" "0x5B \<notin> set pre" "0x5D \<notin> set rest"
  shows "normalizeLowered (pre @ 0x5B # rest) = normalizeLowered (pre @ rest)"
proof -
  have "stripBrackets (0x5B # rest) = 0x5B # stripBrackets rest"
    using assms(3) by (intro stripBrackets_keep) simp_all
  then show ?thesis
    unfolding normalizeLowered_def
    by (simp only: stripBrackets_prefix [OF assms(1,2)] removeNonAlnum_delim)
qed

text \<open>
  Worked examples, computed by rewriting.
\<close>

lemmas normalize_eval = normalizeTitle_def toLowerCase_def fromAscii_def isAscii_def lowerAscii_def
  removeNonAlnum_def isLowerAlnum_def isWhiteSpace_def trim_def stripBrackets.simps(2)
  collapseWhitespace.simps(2)

lemmas lowered_eval = normalizeLowered_def removeNonAlnum_def isLowerAlnum_def isWhiteSpace_def
  trim_def stripBrackets.simps(2) collapseWhitespace.simps(2)

lemma normalizeTitle_Nil: "normalizeTitle L [] = []"
  by (simp add: normalize_eval)

lemma normalizeTitle_Stay: "normalizeTitle L (fromAscii ''Stay'') = fromAscii ''stay''"
  by (simp add: normalize_eval)

lemma normalizeTitle_levitatin: "normalizeTitle L (fromAscii ''levitatin'') = fromAscii ''levitatin''"
  by (simp add: normalize_eval)

lemma normalizeTitle_Levitating: "normalizeTitle L (fromAscii ''Levitating'') = fromAscii ''levitating''"
  by (simp add: normalize_eval)

lemma normalizeTitle_marks: "normalizeTitle L (fromAscii ''?!'') = []"
  by (simp add: normalize_eval)

lemma levenshteinDistance_levitatin:
  "levenshteinDistance (fromAscii ''levitatin'') (fromAscii ''levitating'') = 1"
  by code_simp

lemma levenshteinDistance_stay:
  "levenshteinDistance (fromAscii ''stay'') (fromAscii ''levitating'') = 8"
  by code_simp

text \<open>
  Claim C4. For every input string \<^verbatim>\<open>normalizeTitle\<close> removes parenthesized and bracketed
  groups non-greedily. The scan deletes, at an opening delimiter, the shortest span up to
  the first closing delimiter of its kind behind it; an opening delimiter with no closing
  one behind it is kept by the scan, so nothing is deleted across an unmatched pair; any
  other code unit is kept. For every input, ASCII or not: where the lowercased input has
  a group behind a prefix free of opening delimiters, the result is that of the
  lowercased input with the group cut out; where it has an opening delimiter with no
  closing one behind it, the result is that of the lowercased input without that one
  delimiter, the text behind it staying. For an ASCII title the same is said of the raw
  input. \<^verbatim>\<open>"Song (A) (B)"\<close> normalizes to \<^verbatim>\<open>"song"\<close>, the two groups being removed one by
  one: in \<^verbatim>\<open>"Song (A) x (B)"\<close> the \<^verbatim>\<open>x\<close> between them stays.
\<close>

theorem normalizeTitle_brackets:
  "(0x29 \<notin> set mid \<longrightarrow> stripBrackets (0x28 # mid @ 0x29 # rest) = stripBrackets rest) \<and>
   (0x5D \<notin> set mid \<longrightarrow> stripBrackets (0x5B # mid @ 0x5D # rest) = stripBrackets rest) \<and>
   (0x29 \<notin> set rest \<longrightarrow> stripBrackets (0x28 # rest) = 0x28 # stripBrackets rest) \<and>
   (0x5D \<notin> set rest \<longrightarrow> stripBrackets (0x5B # rest) = 0x5B # stripBrackets rest) \<and>
   (c \<noteq> 0x28 \<and> c \<noteq> 0x5B \<longrightarrow> stripBrackets (c # rest) = c # stripBrackets rest) \<and>
   normalizeTitle L s = normalizeLowered (toLowerCase L s) \<and>
   (toLowerCase L s = pre @ 0x28 # mid @ 0x29 # rest \<and>
    0x28 \<notin> set pre \<and> 0x5B \<notin> set pre \<and> 0x29 \<notin> set mid
      \<longrightarrow> normalizeTitle L s = normalizeLowered (pre @ rest)) \<and>
   (toLowerCase L s = pre @ 0x5B # mid @ 0x5D # rest \<and>
    0x28 \<notin> set pre \<and> 0x5B \<notin> set pre \<and> 0x5D \<notin> set mid
      \<longrightarrow> normalizeTitle L s = normalizeLowered (pre @ rest)) \<and>
   (toLowerCase L s = pre @ 0x28 # rest \<and>
    0x28 \<notin> set pre \<and> 0x5B \<notin> set pre \<and> 0x29 \<notin> set rest
      \<longrightarrow> normalizeTitle L s = normalizeLowered (pre @ rest)) \<and>
   (toLowerCase L s = pre @ 0x5B # rest \<and>
    0x28 \<notin> set pre \<and> 0x5B \<notin> set pre \<and> 0x5D \<notin> set rest
      \<longrightarrow> normalizeTitle L s = normalizeLowered (pre @ rest)) \<and>
   (list_all isAscii (pre @ mid @ rest) \<and> 0x28 \<notin> set pre \<and> 0x5B \<notin> set pre \<and> 0x29 \<notin> set mid
      \<longrightarrow> normalizeTitle L (pre @ 0x28 # mid @ 0x29 # rest) = normalizeTitle L (pre @ rest)) \<and>
   (list_all isAscii (pre @ mid @ rest) \<and> 0x28 \<notin> set pre \<and> 0x5B \<notin> set pre \<and> 0x5D \<notin> set mid
      \<longrightarrow> normalizeTitle L (pre @ 0x5B # mid @ 0x5D # rest) = normalizeTitle L (pre @ rest)) \<and>
   stripBrackets (fromAscii ''song (a) (b)'') = fromAscii ''song  '' \<and>
   normalizeTitle L (fromAscii ''Song (A) (B)'') = fromAscii ''song'' \<and>
   normalizeTitle L (fromAscii ''Song (A) x (B)'') = fromAscii ''song x''"
proof -
  have e1: "stripBrackets (fromAscii ''song (a) (b)'') = fromAscii ''song  ''"
    by (simp add: fromAscii_def stripBrackets.simps(2))
  have e2: "normalizeTitle L (fromAscii ''Song (A) (B)'') = fromAscii ''song''"
    by (simp add: normalize_eval)
  have e3: "normalizeTitle L (fromAscii ''Song (A) x (B)'') = fromAscii ''song x''"
    by (simp add: normalize_eval)
  have k1: "0x29 \<notin> set rest \<longrightarrow> stripBrackets (0x28 # rest) = 0x28 # stripBrackets rest"
    by (simp add: stripBrackets_keep)
  have k2: "0x5D \<notin> set rest \<longrightarrow> stripBrackets (0x5B # rest) = 0x5B # stripBrackets rest"
    by (simp add: stripBrackets_keep)
  have k3: "c \<noteq> 0x28 \<and> c \<noteq> 0x5B \<longrightarrow> stripBrackets (c # rest) = c # stripBrackets rest"
    by (simp add: stripBrackets_keep)
  have g0: "normalizeTitle L s = normalizeLowered (toLowerCase L s)"
    by (rule normalizeTitle_lowered)
  have g1: "toLowerCase L s = pre @ 0x28 # mid @ 0x29 # rest \<and>
      0x28 \<notin> set pre \<and> 0x5B \<notin> set pre \<and> 0x29 \<notin> set mid
      \<longrightarrow> normalizeTitle L s = normalizeLowered (pre @ rest)"
    by (simp add: normalizeTitle_lowered normalizeLowered_paren_group)
  have g2: "toLowerCase L s = pre @ 0x5B # mid @ 0x5D # rest \<and>
      0x28 \<notin> set pre \<and> 0x5B \<notin> set pre \<and> 0x5D \<notin> set mid
      \<longrightarrow> normalizeTitle L s = normalizeLowered (pre @ rest)"
    by (simp add: normalizeTitle_lowered normalizeLowered_square_group)
  have g3: "toLowerCase L s = pre @ 0x28 # rest \<and>
      0x28 \<notin> set pre \<and> 0x5B \<notin> set pre \<and> 0x29 \<notin> set rest
      \<longrightarrow> normalizeTitle L s = normalizeLowered (pre @ rest)"
    by (simp add: normalizeTitle_lowered normalizeLowered_unmatched_paren)
  have g4: "toLowerCase L s = pre @ 0x5B # rest \<and>
      0x28 \<notin> set pre \<and> 0x5B \<notin> set pre \<and> 0x5D \<notin> set rest
      \<longrightarrow> normalizeTitle L s = normalizeLowered (pre @ rest)"
    by (simp add: normalizeTitle_lowered normalizeLowered_unmatched_square)
  show ?thesis
    using e1 e2 e3 k1 k2 k3 g0 g1 g2 g3 g4
      stripBrackets_paren [of mid rest] stripBrackets_square [of mid rest]
      normalizeTitle_paren_group [of pre mid rest L] normalizeTitle_square_group [of pre mid rest L]
    by blast
qed

theorem normalizeTitle_brackets_witness:
  "normalizeTitle (\<lambda>s. s) [0x62, 0xE9, 0x20, 0x28, 0x61, 0x29] = [0x62] \<and>
   normalizeTitle (\<lambda>s. s) [0x62, 0xE9, 0x20, 0x5B, 0x61, 0x5D] = [0x62] \<and>
   normalizeTitle (\<lambda>s. s) [0x62, 0xE9, 0x20, 0x28, 0x61] = [0x62, 0x20, 0x61] \<and>
   normalizeTitle (\<lambda>s. s) [0x62, 0xE9, 0x20, 0x5B, 0x61] = [0x62, 0x20, 0x61] \<and>
   stripBrackets (0x28 # fromAscii ''A'' @ 0x29 # fromAscii '' (B)'') = stripBrackets (fromAscii '' (B)'') \<and>
   stripBrackets (0x5B # fromAscii ''A'' @ 0x5D # fromAscii '' (B)'') = stripBrackets (fromAscii '' (B)'') \<and>
   stripBrackets (0x28 # fromAscii ''A]'') = 0x28 # stripBrackets (fromAscii ''A]'') \<and>
   stripBrackets (0x5B # fromAscii ''A)'') = 0x5B # stripBrackets (fromAscii ''A)'') \<and>
   stripBrackets (0x53 # fromAscii ''ong'') = 0x53 # stripBrackets (fromAscii ''ong'') \<and>
   normalizeTitle (\<lambda>s. s) (fromAscii ''Song '' @ 0x28 # fromAscii ''A'' @ 0x29 # fromAscii '' (B)'')
     = normalizeTitle (\<lambda>s. s) (fromAscii ''Song '' @ fromAscii '' (B)'') \<and>
   normalizeTitle (\<lambda>s. s) (fromAscii ''Song '' @ 0x5B # fromAscii ''A'' @ 0x5D # fromAscii '' (B)'')
     = normalizeTitle (\<lambda>s. s) (fromAscii ''Song '' @ fromAscii '' (B)'') \<and>
   normalizeTitle (\<lambda>s. s) (fromAscii ''Song (A) (B)'') = fromAscii ''song''"
proof -
  have low: "toLowerCase (\<lambda>s. s) (0x62 # 0xE9 # t) = 0x62 # 0xE9 # t" for t
    by (simp add: toLowerCase_def isAscii_def)
  have v1: "normalizeLowered ([0x62, 0xE9, 0x20] @ []) = [0x62]"
    by (simp add: lowered_eval)
  have v2: "normalizeLowered ([0x62, 0xE9, 0x20] @ [0x61]) = [0x62, 0x20, 0x61]"
    by (simp add: lowered_eval)
  have d: "0x28 \<notin> set [0x62, 0xE9, 0x20 :: codeunit]" "0x5B \<notin> set [0x62, 0xE9, 0x20 :: codeunit]"
    "0x29 \<notin> set [0x61 :: codeunit]" "0x5D \<notin> set [0x61 :: codeunit]"
    by simp_all
  have l1: "toLowerCase (\<lambda>s. s) [0x62, 0xE9, 0x20, 0x28, 0x61, 0x29]
      = [0x62, 0xE9, 0x20] @ 0x28 # [0x61] @ 0x29 # []"
    by (simp add: low)
  have l2: "toLowerCase (\<lambda>s. s) [0x62, 0xE9, 0x20, 0x5B, 0x61, 0x5D]
      = [0x62, 0xE9, 0x20] @ 0x5B # [0x61] @ 0x5D # []"
    by (simp add: low)
  have l3: "toLowerCase (\<lambda>s. s) [0x62, 0xE9, 0x20, 0x28, 0x61] = [0x62, 0xE9, 0x20] @ 0x28 # [0x61]"
    by (simp add: low)
  have l4: "toLowerCase (\<lambda>s. s) [0x62, 0xE9, 0x20, 0x5B, 0x61] = [0x62, 0xE9, 0x20] @ 0x5B # [0x61]"
    by (simp add: low)
  have "normalizeTitle (\<lambda>s. s) [0x62, 0xE9, 0x20, 0x28, 0x61, 0x29] = normalizeLowered ([0x62, 0xE9, 0x20] @ [])"
    using normalizeTitle_brackets [where L = "\<lambda>s. s" and s = "[0x62, 0xE9, 0x20, 0x28, 0x61, 0x29]"
        and pre = "[0x62, 0xE9, 0x20]" and mid = "[0x61]" and rest = "[]" and c = "0x53"] l1 d
    by blast
  then have n1: "normalizeTitle (\<lambda>s. s) [0x62, 0xE9, 0x20, 0x28, 0x61, 0x29] = [0x62]"
    by (simp only: v1)
  have "normalizeTitle (\<lambda>s. s) [0x62, 0xE9, 0x20, 0x5B, 0x61, 0x5D] = normalizeLowered ([0x62, 0xE9, 0x20] @ [])"
    using normalizeTitle_brackets [where L = "\<lambda>s. s" and s = "[0x62, 0xE9, 0x20, 0x5B, 0x61, 0x5D]"
        and pre = "[0x62, 0xE9, 0x20]" and mid = "[0x61]" and rest = "[]" and c = "0x53"] l2 d
    by blast
  then have n2: "normalizeTitle (\<lambda>s. s) [0x62, 0xE9, 0x20, 0x5B, 0x61, 0x5D] = [0x62]"
    by (simp only: v1)
  have "normalizeTitle (\<lambda>s. s) [0x62, 0xE9, 0x20, 0x28, 0x61] = normalizeLowered ([0x62, 0xE9, 0x20] @ [0x61])"
    using normalizeTitle_brackets [where L = "\<lambda>s. s" and s = "[0x62, 0xE9, 0x20, 0x28, 0x61]"
        and pre = "[0x62, 0xE9, 0x20]" and mid = "[]" and rest = "[0x61]" and c = "0x53"] l3 d
    by blast
  then have n3: "normalizeTitle (\<lambda>s. s) [0x62, 0xE9, 0x20, 0x28, 0x61] = [0x62, 0x20, 0x61]"
    by (simp only: v2)
  have "normalizeTitle (\<lambda>s. s) [0x62, 0xE9, 0x20, 0x5B, 0x61] = normalizeLowered ([0x62, 0xE9, 0x20] @ [0x61])"
    using normalizeTitle_brackets [where L = "\<lambda>s. s" and s = "[0x62, 0xE9, 0x20, 0x5B, 0x61]"
        and pre = "[0x62, 0xE9, 0x20]" and mid = "[]" and rest = "[0x61]" and c = "0x53"] l4 d
    by blast
  then have n4: "normalizeTitle (\<lambda>s. s) [0x62, 0xE9, 0x20, 0x5B, 0x61] = [0x62, 0x20, 0x61]"
    by (simp only: v2)
  have a: "stripBrackets (0x28 # fromAscii ''A'' @ 0x29 # fromAscii '' (B)'') = stripBrackets (fromAscii '' (B)'') \<and>
   stripBrackets (0x5B # fromAscii ''A'' @ 0x5D # fromAscii '' (B)'') = stripBrackets (fromAscii '' (B)'') \<and>
   stripBrackets (0x28 # fromAscii ''A]'') = 0x28 # stripBrackets (fromAscii ''A]'') \<and>
   stripBrackets (0x5B # fromAscii ''A)'') = 0x5B # stripBrackets (fromAscii ''A)'') \<and>
   stripBrackets (0x53 # fromAscii ''ong'') = 0x53 # stripBrackets (fromAscii ''ong'') \<and>
   normalizeTitle (\<lambda>s. s) (fromAscii ''Song '' @ 0x28 # fromAscii ''A'' @ 0x29 # fromAscii '' (B)'')
     = normalizeTitle (\<lambda>s. s) (fromAscii ''Song '' @ fromAscii '' (B)'') \<and>
   normalizeTitle (\<lambda>s. s) (fromAscii ''Song '' @ 0x5B # fromAscii ''A'' @ 0x5D # fromAscii '' (B)'')
     = normalizeTitle (\<lambda>s. s) (fromAscii ''Song '' @ fromAscii '' (B)'') \<and>
   normalizeTitle (\<lambda>s. s) (fromAscii ''Song (A) (B)'') = fromAscii ''song''"
    using normalizeTitle_brackets [where mid = "fromAscii ''A''" and rest = "fromAscii '' (B)''"
        and c = "0x53" and pre = "fromAscii ''Song ''" and L = "\<lambda>s. s" and s = "[]"]
      normalizeTitle_brackets [where mid = "fromAscii ''A''" and rest = "fromAscii ''A]''"
        and c = "0x53" and pre = "fromAscii ''Song ''" and L = "\<lambda>s. s" and s = "[]"]
      normalizeTitle_brackets [where mid = "fromAscii ''A''" and rest = "fromAscii ''A)''"
        and c = "0x53" and pre = "fromAscii ''Song ''" and L = "\<lambda>s. s" and s = "[]"]
      normalizeTitle_brackets [where mid = "fromAscii ''A''" and rest = "fromAscii ''ong''"
        and c = "0x53" and pre = "fromAscii ''Song ''" and L = "\<lambda>s. s" and s = "[]"]
    by (simp add: fromAscii_def isAscii_def)
  show ?thesis using n1 n2 n3 n4 a by simp
qed

text \<open>
  Claim C5. For every input the result of \<^verbatim>\<open>normalizeTitle\<close> holds only lowercase ASCII
  letters, digits and spaces; no two spaces are neighbours; it neither starts nor ends
  with a space; and it holds no parenthesis or square bracket, hence no parenthesized or
  bracketed substring. An input whose lowercased form has no letter, digit or white space,
  in particular any input of ASCII punctuation and brackets only, normalizes to the empty
  string. The function is total: it is a composition of terminating functions.
\<close>

theorem normalizeTitle_invariant:
  "(\<forall>c\<in>set (normalizeTitle L s). isLowerAlnum c \<or> c = 0x20) \<and>
   (\<forall>i. Suc i < length (normalizeTitle L s) \<longrightarrow>
      normalizeTitle L s ! i \<noteq> 0x20 \<or> normalizeTitle L s ! Suc i \<noteq> 0x20) \<and>
   (normalizeTitle L s \<noteq> [] \<longrightarrow>
      hd (normalizeTitle L s) \<noteq> 0x20 \<and> last (normalizeTitle L s) \<noteq> 0x20) \<and>
   0x28 \<notin> set (normalizeTitle L s) \<and> 0x29 \<notin> set (normalizeTitle L s) \<and>
   0x5B \<notin> set (normalizeTitle L s) \<and> 0x5D \<notin> set (normalizeTitle L s) \<and>
   ((\<forall>c\<in>set (toLowerCase L s). \<not> isLowerAlnum c \<and> \<not> isWhiteSpace c) \<longrightarrow> normalizeTitle L s = []) \<and>
   ((\<forall>c\<in>set s. isAsciiPunct c) \<longrightarrow> normalizeTitle L s = [])"
proof -
  have a: "\<forall>c\<in>set (normalizeTitle L s). isLowerAlnum c \<or> c = 0x20"
    using normalizeTitle_chars by blast
  have b: "\<forall>i. Suc i < length (normalizeTitle L s) \<longrightarrow>
      normalizeTitle L s ! i \<noteq> 0x20 \<or> normalizeTitle L s ! Suc i \<noteq> 0x20"
    using noDoubleSpace_nth [OF normalizeTitle_noDoubleSpace] by blast
  have c: "normalizeTitle L s \<noteq> [] \<longrightarrow>
      hd (normalizeTitle L s) \<noteq> 0x20 \<and> last (normalizeTitle L s) \<noteq> 0x20"
    using normalizeTitle_ends [of L s] isWhiteSpace_space by auto
  show ?thesis
    using a b c normalizeTitle_no_delims [of L s] normalizeTitle_empty [of L s]
      normalizeTitle_punct [of s L]
    by blast
qed

theorem normalizeTitle_invariant_witness:
  "normalizeTitle (\<lambda>s. s) (fromAscii ''?!([-'') = [] \<and>
   normalizeTitle (\<lambda>s. s) (fromAscii '' Hello,   World! (Live) '') = fromAscii ''hello world'' \<and>
   hd (normalizeTitle (\<lambda>s. s) (fromAscii '' Hello,   World! (Live) '')) \<noteq> 0x20 \<and>
   last (normalizeTitle (\<lambda>s. s) (fromAscii '' Hello,   World! (Live) '')) \<noteq> 0x20 \<and>
   \<not> (normalizeTitle (\<lambda>s. s) (fromAscii '' Hello,   World! (Live) '') ! 4 = 0x20 \<and>
      normalizeTitle (\<lambda>s. s) (fromAscii '' Hello,   World! (Live) '') ! 5 = 0x20) \<and>
   isLowerAlnum (normalizeTitle (\<lambda>s. s) (fromAscii '' Hello,   World! (Live) '') ! 0)"
proof -
  have p: "\<forall>c\<in>set (fromAscii ''?!([-''). isAsciiPunct c"
    by (simp add: fromAscii_def isAsciiPunct_def)
  have e: "normalizeTitle (\<lambda>s. s) (fromAscii ''?!([-'') = []"
    using normalizeTitle_invariant [of "\<lambda>s. s" "fromAscii ''?!([-''"] p by blast
  have v: "normalizeTitle (\<lambda>s. s) (fromAscii '' Hello,   World! (Live) '') = fromAscii ''hello world''"
    by (simp add: normalize_eval)
  have n: "fromAscii ''hello world'' \<noteq> []" "Suc 4 < length (fromAscii ''hello world'')"
    "fromAscii ''hello world'' ! 0 \<in> set (fromAscii ''hello world'')"
    "fromAscii ''hello world'' ! 0 \<noteq> 0x20"
    by (simp_all add: fromAscii_def)
  note inv = normalizeTitle_invariant [of "\<lambda>s. s" "fromAscii '' Hello,   World! (Live) ''", unfolded v]
  have a: "isLowerAlnum (fromAscii ''hello world'' ! 0)"
    using inv n(3,4) by blast
  have "fromAscii ''hello world'' ! 4 \<noteq> 0x20 \<or> fromAscii ''hello world'' ! Suc 4 \<noteq> 0x20"
    using inv n(2) by blast
  then have b: "\<not> (fromAscii ''hello world'' ! 4 = 0x20 \<and> fromAscii ''hello world'' ! 5 = 0x20)"
    by (simp add: eval_nat_numeral)
  have c: "hd (fromAscii ''hello world'') \<noteq> 0x20 \<and> last (fromAscii ''hello world'') \<noteq> 0x20"
    using inv n(1) by blast
  show ?thesis
    unfolding v using e a b c by simp
qed

section \<open>Similarity\<close>

text \<open>
  The value of the similarity in terms of the two normalized forms.
\<close>

lemma similarity_eq:
  "similarity L aRaw bRaw =
     (if normalizeTitle L aRaw = [] \<and> normalizeTitle L bRaw = [] then 1
      else 1 - real (levenshteinDistance (normalizeTitle L aRaw) (normalizeTitle L bRaw))
               / real (max (length (normalizeTitle L aRaw)) (length (normalizeTitle L bRaw))))"
  by (auto simp: similarity_def Let_def)

lemma ratio_bounds:
  assumes "d \<le> m" "0 < (m::nat)"
  shows "0 \<le> 1 - real d / real m" "1 - real d / real m \<le> 1"
    "1 - real d / real m = 1 \<longleftrightarrow> d = 0"
  using assms by (simp_all add: field_simps)

lemma similarity_levitatin:
  "similarity L (fromAscii ''levitatin'') (fromAscii ''Levitating'') = 9 / 10"
  by (simp add: similarity_eq normalizeTitle_levitatin normalizeTitle_Levitating
      levenshteinDistance_levitatin) (simp add: fromAscii_def)

lemma similarity_stay:
  "similarity L (fromAscii ''Stay'') (fromAscii ''Levitating'') = 2 / 10"
  by (simp add: similarity_eq normalizeTitle_Stay normalizeTitle_Levitating
      levenshteinDistance_stay) (simp add: fromAscii_def)

text \<open>
  Claim C1. For every pair of raw strings, \<^verbatim>\<open>similarity\<close> returns exactly 1 when both
  normalized forms are empty; otherwise it returns 1 minus the Levenshtein distance of the
  two normalized forms (the value \<^verbatim>\<open>levenshteinDistance\<close> computes, which is the entry of the
  classic cost table) divided by the larger of their lengths. The result always lies
  between 0 and 1, and it is 1 exactly when the two normalized forms are the same string.
  Numbers are exact here: the division and the subtraction are not rounded.
\<close>

theorem similarity_spec:
  "(normalizeTitle L aRaw = [] \<and> normalizeTitle L bRaw = [] \<longrightarrow> similarity L aRaw bRaw = 1) \<and>
   (\<not> (normalizeTitle L aRaw = [] \<and> normalizeTitle L bRaw = []) \<longrightarrow>
      similarity L aRaw bRaw =
        1 - real (levenshteinDistance (normalizeTitle L aRaw) (normalizeTitle L bRaw))
            / real (max (length (normalizeTitle L aRaw)) (length (normalizeTitle L bRaw))) \<and>
      levenshteinDistance (normalizeTitle L aRaw) (normalizeTitle L bRaw)
        = distance (normalizeTitle L aRaw) (normalizeTitle L bRaw)
            (length (normalizeTitle L aRaw)) (length (normalizeTitle L bRaw))) \<and>
   0 \<le> similarity L aRaw bRaw \<and> similarity L aRaw bRaw \<le> 1 \<and>
   (similarity L aRaw bRaw = 1 \<longleftrightarrow> normalizeTitle L aRaw = normalizeTitle L bRaw)"
proof (cases "normalizeTitle L aRaw = [] \<and> normalizeTitle L bRaw = []")
  case True
  then show ?thesis by (simp add: similarity_eq)
next
  case False
  define a where "a = normalizeTitle L aRaw"
  define b where "b = normalizeTitle L bRaw"
  have m: "0 < max (length a) (length b)"
    using False by (auto simp: a_def b_def less_max_iff_disj)
  have d: "levenshteinDistance a b \<le> max (length a) (length b)"
    by (rule levenshteinDistance_le_max)
  have s: "similarity L aRaw bRaw = 1 - real (levenshteinDistance a b) / real (max (length a) (length b))"
    using False by (simp add: similarity_eq a_def b_def)
  have r: "0 \<le> similarity L aRaw bRaw" "similarity L aRaw bRaw \<le> 1"
    "similarity L aRaw bRaw = 1 \<longleftrightarrow> a = b"
    unfolding s using ratio_bounds [OF d m] by (simp_all add: levenshteinDistance_eq_0)
  have t: "levenshteinDistance a b = distance a b (length a) (length b)"
    by (rule levenshteinDistance_distance)
  show ?thesis
    using False s t r unfolding a_def b_def by blast
qed

theorem similarity_spec_witness:
  "similarity (\<lambda>s. s) [] [] = 1 \<and>
   similarity (\<lambda>s. s) (fromAscii ''levitatin'') (fromAscii ''Levitating'') = 9 / 10 \<and>
   0 \<le> similarity (\<lambda>s. s) (fromAscii ''levitatin'') (fromAscii ''Levitating'') \<and>
   similarity (\<lambda>s. s) (fromAscii ''levitatin'') (fromAscii ''Levitating'') \<le> 1 \<and>
   similarity (\<lambda>s. s) (fromAscii ''levitatin'') (fromAscii ''Levitating'') \<noteq> 1"
proof -
  have ne: "fromAscii ''levitatin'' \<noteq> fromAscii ''levitating''"
    "fromAscii ''levitatin'' \<noteq> []"
    by (simp_all add: fromAscii_def)
  have len: "length (fromAscii ''levitatin'') = 9" "length (fromAscii ''levitating'') = 10"
    by (simp_all add: fromAscii_def)
  show ?thesis
    using similarity_spec [of "\<lambda>s. s" "[]" "[]"]
      similarity_spec [of "\<lambda>s. s" "fromAscii ''levitatin''" "fromAscii ''Levitating''"]
      ne len
    by (simp add: normalizeTitle_Nil normalizeTitle_levitatin normalizeTitle_Levitating
        levenshteinDistance_levitatin)
qed

text \<open>
  Claim C6. Similarity is symmetric: for all raw strings \<open>a\<close> and \<open>b\<close>,
  \<open>similarity(a, b) = similarity(b, a)\<close>.
\<close>

theorem similarity_symmetric: "similarity L a b = similarity L b a"
  by (simp add: similarity_eq levenshteinDistance_sym [of "normalizeTitle L a"] max.commute conj_commute)

theorem similarity_symmetric_witness:
  "similarity (\<lambda>s. s) (fromAscii ''levitatin'') (fromAscii ''Levitating'')
     = similarity (\<lambda>s. s) (fromAscii ''Levitating'') (fromAscii ''levitatin'')"
  by (rule similarity_symmetric)

text \<open>
  Claim C7. Every string is fully similar to itself: \<open>similarity(s, s) = 1\<close>.
\<close>

theorem similarity_identity: "similarity L s s = 1"
  by (simp add: similarity_eq levenshteinDistance_eq_0 [THEN iffD2])

theorem similarity_identity_witness:
  "similarity (\<lambda>s. s) (fromAscii ''Stay'') (fromAscii ''Stay'') = 1"
  by (rule similarity_identity)

text \<open>
  Claim C9. \<^verbatim>\<open>normalizeTitle\<close> is idempotent, and so the similarity does not change when
  either raw input is replaced by its normalized form.
\<close>

theorem normalizeTitle_idempotent:
  "normalizeTitle L (normalizeTitle L s) = normalizeTitle L s \<and>
   similarity L (normalizeTitle L a) b = similarity L a b \<and>
   similarity L a (normalizeTitle L b) = similarity L a b"
  by (simp add: similarity_eq normalizeTitle_idem)

theorem normalizeTitle_idempotent_witness:
  "normalizeTitle (\<lambda>s. s) (normalizeTitle (\<lambda>s. s) (fromAscii ''Stay (Live)''))
     = normalizeTitle (\<lambda>s. s) (fromAscii ''Stay (Live)'') \<and>
   similarity (\<lambda>s. s) (normalizeTitle (\<lambda>s. s) (fromAscii ''Stay (Live)'')) (fromAscii ''stay'')
     = similarity (\<lambda>s. s) (fromAscii ''Stay (Live)'') (fromAscii ''stay'')"
  using normalizeTitle_idempotent [of "\<lambda>s. s" "fromAscii ''Stay (Live)''"
      "fromAscii ''Stay (Live)''" "fromAscii ''stay''"]
  by simp

section \<open>Submitting a guess\<close>

lemma sampleRound_sel:
  "guess (sampleRound g t n) = fromAscii g"
  "currentTrack (sampleRound g t n) = Some \<lparr>name = fromAscii t\<rparr>"
  "triesLeft (sampleRound g t n) = n" "revealed (sampleRound g t n) = False"
  "result (sampleRound g t n) = Idle" "correctCount (sampleRound g t n) = 0"
  "wrongCount (sampleRound g t n) = 0"
  by (simp_all add: sampleRound_def)

lemma handleGuessSubmit_Some:
  "currentTrack st = Some track \<Longrightarrow>
   handleGuessSubmit L st =
     (if similarity L (guess st) (name track) \<ge> 7 / 10 then
        st\<lparr>result := Correct, revealed := True, playing := False, correctCount := correctCount st + 1\<rparr>
      else if triesLeft st - 1 \<le> 0 then
        st\<lparr>triesLeft := triesLeft st - 1, result := Wrong, revealed := True, playing := False,
          wrongCount := wrongCount st + 1\<rparr>
      else st\<lparr>triesLeft := triesLeft st - 1, result := Wrong\<rparr>)"
  by (simp add: handleGuessSubmit_def stopAudio_def Let_def)

lemma result_handleGuessSubmit:
  "currentTrack st = Some track \<Longrightarrow>
   result (handleGuessSubmit L st) =
     (if similarity L (guess st) (name track) \<ge> 7 / 10 then Correct else Wrong)"
  by (simp add: handleGuessSubmit_Some)

text \<open>
  Claim C2. With a current track, a submitted guess is judged correct (the result of
  \<^verbatim>\<open>handleGuessSubmit\<close> is \<open>Correct\<close>) exactly when the similarity of the guess and the
  track's title is at least 0.7. In particular an edit distance of 1 against a normalized
  title of 10 characters is judged correct, with similarity 0.9 when 10 is the longer of
  the two normalized lengths; and a guess whose normalized edit distance exceeds 30% of
  the longer normalized length is judged wrong.
\<close>

theorem guess_threshold:
  assumes "currentTrack st = Some track"
  shows "(result (handleGuessSubmit L st) = Correct
            \<longleftrightarrow> similarity L (guess st) (name track) \<ge> 7 / 10) \<and>
         (levenshteinDistance (normalizeTitle L (guess st)) (normalizeTitle L (name track)) = 1 \<and>
          length (normalizeTitle L (name track)) = 10
            \<longrightarrow> result (handleGuessSubmit L st) = Correct) \<and>
         (levenshteinDistance (normalizeTitle L (guess st)) (normalizeTitle L (name track)) = 1 \<and>
          max (length (normalizeTitle L (guess st))) (length (normalizeTitle L (name track))) = 10
            \<longrightarrow> similarity L (guess st) (name track) = 9 / 10) \<and>
         (real (levenshteinDistance (normalizeTitle L (guess st)) (normalizeTitle L (name track)))
            > 3 / 10 * real (max (length (normalizeTitle L (guess st)))
                                 (length (normalizeTitle L (name track))))
            \<longrightarrow> result (handleGuessSubmit L st) = Wrong)"
proof -
  define g where "g = normalizeTitle L (guess st)"
  define t where "t = normalizeTitle L (name track)"
  define d where "d = levenshteinDistance g t"
  define m where "m = max (length g) (length t)"
  have sim: "similarity L (guess st) (name track) = (if g = [] \<and> t = [] then 1 else 1 - real d / real m)"
    by (simp add: similarity_eq g_def t_def d_def m_def)
  have r: "result (handleGuessSubmit L st) =
      (if similarity L (guess st) (name track) \<ge> 7 / 10 then Correct else Wrong)"
    using assms by (rule result_handleGuessSubmit)
  have one: "result (handleGuessSubmit L st) = Correct
      \<longleftrightarrow> similarity L (guess st) (name track) \<ge> 7 / 10"
    by (simp add: r)
  have two: "result (handleGuessSubmit L st) = Correct" if "d = 1" "length t = 10"
  proof -
    have "10 \<le> m" using that by (simp add: m_def)
    then have "1 / real m \<le> 1 / 10" by (simp add: field_simps)
    moreover have "\<not> (g = [] \<and> t = [])" using that by auto
    ultimately have "similarity L (guess st) (name track) \<ge> 7 / 10"
      using that by (simp add: sim)
    then show ?thesis by (simp add: r)
  qed
  have three: "similarity L (guess st) (name track) = 9 / 10" if "d = 1" "m = 10"
  proof -
    have "\<not> (g = [] \<and> t = [])" using that by (auto simp: m_def)
    then show ?thesis using that by (simp add: sim)
  qed
  have four: "result (handleGuessSubmit L st) = Wrong" if "real d > 3 / 10 * real m"
  proof -
    have ne: "\<not> (g = [] \<and> t = [])"
      using that by (auto simp: d_def levenshteinDistance_Nil1)
    then have "0 < m" by (auto simp: m_def less_max_iff_disj)
    then have "real d / real m > 3 / 10" using that by (simp add: field_simps)
    then have "\<not> similarity L (guess st) (name track) \<ge> 7 / 10"
      using ne by (simp add: sim)
    then show ?thesis by (simp add: r)
  qed
  show ?thesis
    using one two three four unfolding d_def m_def g_def t_def by blast
qed

theorem guess_threshold_witness:
  "result (handleGuessSubmit (\<lambda>s. s) (sampleRound ''levitatin'' ''Levitating'' 3)) = Correct \<and>
   similarity (\<lambda>s. s) (fromAscii ''levitatin'') (fromAscii ''Levitating'') = 9 / 10 \<and>
   result (handleGuessSubmit (\<lambda>s. s) (sampleRound ''Stay'' ''Levitating'' 3)) = Wrong"
proof -
  have len: "length (fromAscii ''levitatin'') = 9" "length (fromAscii ''levitating'') = 10"
    "length (fromAscii ''stay'') = 4"
    by (simp_all add: fromAscii_def)
  show ?thesis
    using guess_threshold [of "sampleRound ''levitatin'' ''Levitating'' 3"
        "\<lparr>name = fromAscii ''Levitating''\<rparr>" "\<lambda>s. s"]
      guess_threshold [of "sampleRound ''Stay'' ''Levitating'' 3"
        "\<lparr>name = fromAscii ''Levitating''\<rparr>" "\<lambda>s. s"]
    by (simp add: sampleRound_sel normalizeTitle_levitatin normalizeTitle_Levitating
        normalizeTitle_Stay levenshteinDistance_levitatin levenshteinDistance_stay len)
qed

text \<open>
  Claim C8. \<^verbatim>\<open>similarity("", "Stay")\<close> is 0. More generally, when exactly one of the two
  normalized forms is empty the similarity is exactly 0, so a guess that normalizes to the
  empty string is judged wrong against a title whose normalized form is not empty.
\<close>

theorem similarity_empty_side:
  "similarity L [] (fromAscii ''Stay'') = 0 \<and>
   ((normalizeTitle L a = []) \<noteq> (normalizeTitle L b = []) \<longrightarrow> similarity L a b = 0) \<and>
   (currentTrack st = Some track \<and> normalizeTitle L (guess st) = [] \<and>
      normalizeTitle L (name track) \<noteq> [] \<longrightarrow> result (handleGuessSubmit L st) = Wrong)"
proof -
  have gen: "similarity L x y = 0" if "(normalizeTitle L x = []) \<noteq> (normalizeTitle L y = [])" for x y
    using that by (auto simp: similarity_eq levenshteinDistance_Nil1 levenshteinDistance_Nil2)
  have "fromAscii ''stay'' \<noteq> []" by (simp add: fromAscii_def)
  then have "similarity L [] (fromAscii ''Stay'') = 0"
    by (intro gen) (simp add: normalizeTitle_Nil normalizeTitle_Stay)
  moreover have "result (handleGuessSubmit L st) = Wrong"
    if "currentTrack st = Some track" "normalizeTitle L (guess st) = []"
      "normalizeTitle L (name track) \<noteq> []"
    using that gen [of "guess st" "name track"] by (simp add: result_handleGuessSubmit)
  ultimately show ?thesis using gen by blast
qed

theorem similarity_empty_side_witness:
  "similarity (\<lambda>s. s) [] (fromAscii ''Stay'') = 0 \<and>
   similarity (\<lambda>s. s) (fromAscii ''?!'') (fromAscii ''Stay'') = 0 \<and>
   result (handleGuessSubmit (\<lambda>s. s) (sampleRound ''?!'' ''Stay'' 3)) = Wrong"
proof -
  have ne: "fromAscii ''stay'' \<noteq> []" by (simp add: fromAscii_def)
  show ?thesis
    using similarity_empty_side [of "\<lambda>s. s" "fromAscii ''?!''" "fromAscii ''Stay''"
        "sampleRound ''?!'' ''Stay'' 3" "\<lparr>name = fromAscii ''Stay''\<rparr>"] ne
    by (simp add: sampleRound_sel normalizeTitle_marks normalizeTitle_Stay)
qed

text \<open>
  Claim C10. \<^verbatim>\<open>handleGuessSubmit\<close> as a step on the round. Without a current track nothing
  changes. A submission judged correct leaves \<open>triesLeft\<close> and \<open>wrongCount\<close> alone and
  adds one to \<open>correctCount\<close>. A submission judged wrong takes one from \<open>triesLeft\<close> and
  leaves \<open>correctCount\<close> alone; \<open>wrongCount\<close> grows by one, and the answer is revealed,
  when the decremented \<open>triesLeft\<close> is not positive, which in a round that still had a try
  left means that it has reached zero; otherwise \<open>wrongCount\<close> and \<open>revealed\<close> stay.
\<close>

theorem handleGuessSubmit_frame:
  "(currentTrack st = None \<longrightarrow> handleGuessSubmit L st = st) \<and>
   (currentTrack st = Some track \<and> similarity L (guess st) (name track) \<ge> 7 / 10 \<longrightarrow>
      result (handleGuessSubmit L st) = Correct \<and>
      triesLeft (handleGuessSubmit L st) = triesLeft st \<and>
      wrongCount (handleGuessSubmit L st) = wrongCount st \<and>
      correctCount (handleGuessSubmit L st) = correctCount st + 1) \<and>
   (currentTrack st = Some track \<and> similarity L (guess st) (name track) < 7 / 10 \<longrightarrow>
      result (handleGuessSubmit L st) = Wrong \<and>
      triesLeft (handleGuessSubmit L st) = triesLeft st - 1 \<and>
      correctCount (handleGuessSubmit L st) = correctCount st \<and>
      wrongCount (handleGuessSubmit L st)
        = (if triesLeft st - 1 \<le> 0 then wrongCount st + 1 else wrongCount st) \<and>
      revealed (handleGuessSubmit L st) = (if triesLeft st - 1 \<le> 0 then True else revealed st) \<and>
      (1 \<le> triesLeft st \<longrightarrow>
         (wrongCount (handleGuessSubmit L st) = wrongCount st + 1
            \<longleftrightarrow> triesLeft (handleGuessSubmit L st) = 0) \<and>
         (wrongCount (handleGuessSubmit L st) = wrongCount st
            \<longleftrightarrow> triesLeft (handleGuessSubmit L st) \<noteq> 0)))"
proof -
  have "handleGuessSubmit L st = st" if "currentTrack st = None"
    using that by (simp add: handleGuessSubmit_def)
  then show ?thesis by (auto simp: handleGuessSubmit_Some)
qed

theorem handleGuessSubmit_frame_witness:
  "correctCount (handleGuessSubmit (\<lambda>s. s) (sampleRound ''levitatin'' ''Levitating'' 3)) = 1 \<and>
   triesLeft (handleGuessSubmit (\<lambda>s. s) (sampleRound ''levitatin'' ''Levitating'' 3)) = 3 \<and>
   wrongCount (handleGuessSubmit (\<lambda>s. s) (sampleRound ''levitatin'' ''Levitating'' 3)) = 0 \<and>
   triesLeft (handleGuessSubmit (\<lambda>s. s) (sampleRound ''Stay'' ''Levitating'' 3)) = 2 \<and>
   wrongCount (handleGuessSubmit (\<lambda>s. s) (sampleRound ''Stay'' ''Levitating'' 3)) = 0 \<and>
   correctCount (handleGuessSubmit (\<lambda>s. s) (sampleRound ''Stay'' ''Levitating'' 3)) = 0 \<and>
   revealed (handleGuessSubmit (\<lambda>s. s) (sampleRound ''Stay'' ''Levitating'' 3)) = False \<and>
   triesLeft (handleGuessSubmit (\<lambda>s. s) (sampleRound ''Stay'' ''Levitating'' 1)) = 0 \<and>
   wrongCount (handleGuessSubmit (\<lambda>s. s) (sampleRound ''Stay'' ''Levitating'' 1)) = 1 \<and>
   revealed (handleGuessSubmit (\<lambda>s. s) (sampleRound ''Stay'' ''Levitating'' 1)) = True \<and>
   handleGuessSubmit (\<lambda>s. s) ((sampleRound ''Stay'' ''Levitating'' 1)\<lparr>currentTrack := None\<rparr>)
     = (sampleRound ''Stay'' ''Levitating'' 1)\<lparr>currentTrack := None\<rparr>"
  using handleGuessSubmit_frame [of "sampleRound ''levitatin'' ''Levitating'' 3"
      "\<lambda>s. s" "\<lparr>name = fromAscii ''Levitating''\<rparr>"]
    handleGuessSubmit_frame [of "sampleRound ''Stay'' ''Levitating'' 3"
      "\<lambda>s. s" "\<lparr>name = fromAscii ''Levitating''\<rparr>"]
    handleGuessSubmit_frame [of "sampleRound ''Stay'' ''Levitating'' 1"
      "\<lambda>s. s" "\<lparr>name = fromAscii ''Levitating''\<rparr>"]
    handleGuessSubmit_frame [of "(sampleRound ''Stay'' ''Levitating'' 1)\<lparr>currentTrack := None\<rparr>"
      "\<lambda>s. s" "\<lparr>name = fromAscii ''Levitating''\<rparr>"]
  by (simp add: sampleRound_sel similarity_levitatin similarity_stay)

end
